theory Spec2Isabelle
  imports Main "HOL-Library.Char_ord" "HOL-Library.List_Lexorder" "HOL-Library.Sublist"
begin

section \<open>Strings\<close>

text \<open>
  A \<^verbatim>\<open>std::string\<close> is a list of bytes. \<^verbatim>\<open>std::less<std::string>\<close>, the order of the
  sorted resource map, is the lexicographic order on the bytes read as unsigned values:
  the order of \<^typ>\<open>char list\<close> given by the two library theories imported above.
\<close>

text \<open>
  \<^verbatim>\<open>resource.compare(0, n, key) == 0\<close>: the first \<open>min n (size resource)\<close> bytes of
  \<open>resource\<close> equal \<open>key\<close>.
\<close>

definition compare0 :: "string \<Rightarrow> nat \<Rightarrow> string \<Rightarrow> bool" where
  "compare0 resource n key = (take (min n (length resource)) resource = key)"

text \<open>
  \<^verbatim>\<open>resource[n]\<close> on a const string: the byte at \<open>n\<close>, and the null byte at
  \<open>n = size\<close>. Beyond the size the read is undefined in C++; lemma
  \<open>string_at_in_range\<close> below shows that findRequestHandler never gets there.
\<close>

definition string_at :: "string \<Rightarrow> nat \<Rightarrow> char" where
  "string_at s n = (if n < length s then s ! n else CHR 0x00)"

text \<open>
  Modelled from the spec: stripTrailingSlash is declared in server.hpp, which is not among
  the sources. The spec (section 6): a single trailing '/' is stripped.
\<close>

definition stripTrailingSlash :: "string \<Rightarrow> string" where
  "stripTrailingSlash str =
     (if str \<noteq> [] \<and> last str = CHR ''/'' then butlast str else str)"


section \<open>The resource registry\<close>

text \<open>
  \<^verbatim>\<open>m_resources\<close> is a sorted map with unique keys (\<^verbatim>\<open>std::map\<close>): its elements in
  iteration order, a list of pairs whose keys strictly increase. An iterator is an index
  into that list, \<^verbatim>\<open>begin()\<close> is 0 and \<^verbatim>\<open>end()\<close> is the length.
\<close>

type_synonym 'h ResourceMap = "(string \<times> 'h) list"

definition ResourceMap_inv :: "'h ResourceMap \<Rightarrow> bool" where
  "ResourceMap_inv m = sorted_wrt (<) (map fst m)"

text \<open>\<^verbatim>\<open>upper_bound(k)\<close>: the position of the first element whose key is greater than \<open>k\<close>.\<close>

fun upper_bound :: "'h ResourceMap \<Rightarrow> string \<Rightarrow> nat" where
  "upper_bound [] k = 0"
| "upper_bound (e # m) k = (if k < fst e then 0 else Suc (upper_bound m k))"

text \<open>\<^verbatim>\<open>insert(make_pair(k, v))\<close>: adds the pair unless the key is already present.\<close>

fun map_insert :: "string \<Rightarrow> 'h \<Rightarrow> 'h ResourceMap \<Rightarrow> 'h ResourceMap" where
  "map_insert k v [] = [(k, v)]"
| "map_insert k v (e # m) =
     (if k < fst e then (k, v) # e # m
      else if k = fst e then e # m
      else e # map_insert k v m)"

text \<open>\<^verbatim>\<open>erase(k)\<close>: removes the element with key \<open>k\<close>, if there is one.\<close>

fun map_erase :: "string \<Rightarrow> 'h ResourceMap \<Rightarrow> 'h ResourceMap" where
  "map_erase k [] = []"
| "map_erase k (e # m) = (if k = fst e then m else e # map_erase k m)"

text \<open>
  The loop of findRequestHandler (http_server.cpp, lines 130-141), with the iterator
  \<open>i\<close> as an index: \<open>Suc i\<close> is the iterator before \<^verbatim>\<open>--i\<close>.
\<close>

fun walk_down :: "'h ResourceMap \<Rightarrow> string \<Rightarrow> nat \<Rightarrow> 'h option" where
  "walk_down m resource 0 = None"
| "walk_down m resource (Suc i) =
     (if fst (m ! i) = [] \<or> compare0 resource (length (fst (m ! i))) (fst (m ! i)) then
        if length resource = length (fst (m ! i))
           \<or> string_at resource (length (fst (m ! i))) = CHR ''/''
        then Some (snd (m ! i))
        else walk_down m resource i
      else walk_down m resource i)"

definition findRequestHandler :: "'h ResourceMap \<Rightarrow> string \<Rightarrow> 'h option" where
  "findRequestHandler m_resources resource =
     (if m_resources = [] then None
      else walk_down m_resources resource (upper_bound m_resources resource))"

definition addResource :: "string \<Rightarrow> 'h \<Rightarrow> 'h ResourceMap \<Rightarrow> 'h ResourceMap" where
  "addResource resource request_handler m_resources =
     map_insert (stripTrailingSlash resource) request_handler m_resources"

definition removeResource :: "string \<Rightarrow> 'h ResourceMap \<Rightarrow> 'h ResourceMap" where
  "removeResource resource m_resources = map_erase (stripTrailingSlash resource) m_resources"

text \<open>
  The claims about the registry speak of a key \<open>K\<close> matching a resource \<open>R\<close>: \<open>R\<close> is
  \<open>K\<close>, or \<open>R\<close> starts with \<open>K\<close> followed by a slash.
\<close>

definition matches :: "string \<Rightarrow> string \<Rightarrow> bool" where
  "matches K R = (R = K \<or> prefix (K @ ''/'') R)"

text \<open>
  The look-up in the words of the spec (section 4.6), to compare findRequestHandler with:
  over the keys not greater than the query, in descending order, the first key that is
  accepted. \<open>accept_as_stated\<close> is the acceptance test as the spec words it, the empty key
  accepted outright; \<open>accept_by_code\<close> is the test of lines 133-136 in the same terms,
  with the empty key under the boundary test as well.
\<close>

definition accept_as_stated :: "string \<Rightarrow> string \<Rightarrow> bool" where
  "accept_as_stated K R =
     (K = [] \<or> (prefix K R \<and> (length R = length K \<or> R ! length K = CHR ''/'')))"

definition accept_by_code :: "string \<Rightarrow> string \<Rightarrow> bool" where
  "accept_by_code K R =
     ((K = [] \<or> prefix K R) \<and> (length R = length K \<or> R ! length K = CHR ''/''))"

definition descending_first ::
  "(string \<Rightarrow> string \<Rightarrow> bool) \<Rightarrow> 'h ResourceMap \<Rightarrow> string \<Rightarrow> 'h option" where
  "descending_first accept m R =
     map_option snd (List.find (\<lambda>e. accept (fst e) R) (rev (filter (\<lambda>e. fst e \<le> R) m)))"

text \<open>
  The registry of the spec's second scenario: handlers, here numbered, at the empty key,
  at \<^verbatim>\<open>/a\<close> and at \<^verbatim>\<open>/a/b\<close>.
\<close>

definition scenario_registry :: "nat ResourceMap" where
  "scenario_registry = [([], 0), (''/a'', 1), (''/a/b'', 2)]"


section \<open>Messages, connections and responses\<close>

text \<open>
  Modelled from the spec: the request class (request.hpp) is not among the sources. Spec,
  section 3: a message has a current resource, an original resource (the copy of the
  first-seen resource, set once at parse completion) and a validity flag; the redirect
  step rewrites the current resource only.
\<close>

record HTTPRequest =
  m_resource :: string
  m_original_resource :: string
  m_is_valid :: bool

definition getResource :: "HTTPRequest \<Rightarrow> string" where
  "getResource req = m_resource req"

definition getOriginalResource :: "HTTPRequest \<Rightarrow> string" where
  "getOriginalResource req = m_original_resource req"

definition isValid :: "HTTPRequest \<Rightarrow> bool" where
  "isValid req = m_is_valid req"

text \<open>
  Modelled from the spec: changeResource (request.hpp) is not among the sources. Spec,
  section 3: the original resource is set once and never changes; the redirect step
  rewrites the current resource.
\<close>

definition changeResource :: "string \<Rightarrow> HTTPRequest \<Rightarrow> HTTPRequest" where
  "changeResource str req = req\<lparr>m_resource := str\<rparr>"

text \<open>
  A response as it is put on the wire: the status line and the body (headers play no part
  in the functions modelled here).
\<close>

record HTTPResponse =
  m_status_code :: nat
  m_status_message :: string
  m_content :: string

text \<open>
  Modelled from the spec: the connection class (connection.hpp) is not among the sources.
  Spec, sections 3 and 4.1: a lifecycle flag, an open flag, \<^verbatim>\<open>set_lifecycle\<close>,
  \<^verbatim>\<open>is_open\<close> and \<^verbatim>\<open>finish\<close>, which closes the transport when the lifecycle is CLOSE.
  The responses written to the stream and the number of calls of \<^verbatim>\<open>finish\<close> are kept
  so that they can be observed.
\<close>

datatype lifecycle_type = LIFECYCLE_CLOSE | LIFECYCLE_KEEPALIVE

record connection =
  m_lifecycle :: lifecycle_type
  m_is_open :: bool
  m_written :: "HTTPResponse list"
  m_finish_calls :: nat

definition set_lifecycle :: "lifecycle_type \<Rightarrow> connection \<Rightarrow> connection" where
  "set_lifecycle t conn = conn\<lparr>m_lifecycle := t\<rparr>"

definition is_open :: "connection \<Rightarrow> bool" where
  "is_open conn = m_is_open conn"

definition finish :: "connection \<Rightarrow> connection" where
  "finish conn =
     conn\<lparr>m_is_open := (if m_lifecycle conn = LIFECYCLE_CLOSE then False else m_is_open conn),
          m_finish_calls := Suc (m_finish_calls conn)\<rparr>"

text \<open>
  \<^verbatim>\<open>boost::system::error_code\<close>: a value, zero for success, and a category. The
  test \<^verbatim>\<open>if (ec)\<close> reads the value; the category is compared with the parser's.
\<close>

datatype error_category = parser_error_category | system_category | misc_category

record error_code =
  ec_value :: int
  ec_category :: error_category

text \<open>
  What a callable can throw, as far as the catch clauses of handleRequest tell apart:
  \<^verbatim>\<open>std::bad_alloc\<close>, any other exception derived from \<^verbatim>\<open>std::exception\<close> (with its
  dynamic type and its \<^verbatim>\<open>what()\<close>), and anything else.
\<close>

datatype thrown = bad_alloc | std_exception string string | non_std_exception

text \<open>
  \<^verbatim>\<open>boost::diagnostic_information(e)\<close> belongs to the Boost library: for an exception
  that derives from \<^verbatim>\<open>std::exception\<close> it prints the dynamic type and \<^verbatim>\<open>what()\<close>.
\<close>

fun diagnostic_information :: "thrown \<Rightarrow> string" where
  "diagnostic_information (std_exception dynamic_type what) =
     ''Dynamic exception type: '' @ dynamic_type @ ''\<newline>''
       @ ''std::exception::what: '' @ what @ ''\<newline>''"
| "diagnostic_information bad_alloc = []"
| "diagnostic_information non_std_exception = []"

text \<open>
  A callable receives the shared request and connection and may change both; it returns
  or throws. Its effect: what it threw, if anything, and the request and the connection
  as it left them.
\<close>

type_synonym effect = "thrown option \<times> HTTPRequest \<times> connection"

type_synonym RequestHandler = "HTTPRequest \<Rightarrow> connection \<Rightarrow> effect"

type_synonym ServerErrorHandler = "HTTPRequest \<Rightarrow> connection \<Rightarrow> string \<Rightarrow> effect"

text \<open>
  Modelled from the spec: the authenticator (auth.hpp) is not among the sources. Spec,
  section 4.8, step 4: \<^verbatim>\<open>auth.handle_request(request, conn)\<close> returns false when it has
  answered the request itself, and true to proceed. Spec, section 3: only the redirect
  step rewrites the resource of a message, and nothing changes its original resource; so
  the authenticator leaves the three fields of the request alone and acts on the
  connection only.
\<close>

type_synonym HTTPAuth = "HTTPRequest \<Rightarrow> connection \<Rightarrow> bool \<times> connection"


section \<open>The response writer and the default responders\<close>

text \<open>
  Modelled from the spec: the response writer (response_writer.hpp) and the status
  constants of HTTPTypes are not among the sources. Spec, section 4.5: the writer
  accumulates status and body; \<^verbatim>\<open>send\<close> emits the response and then calls the finished
  callback given at construction. Spec, section 4.9: the status codes 400, 404 and 500.
  The reason phrases are those of the HTML titles in http_server.cpp.
\<close>

definition RESPONSE_CODE_BAD_REQUEST :: nat where "RESPONSE_CODE_BAD_REQUEST = 400"
definition RESPONSE_CODE_NOT_FOUND :: nat where "RESPONSE_CODE_NOT_FOUND = 404"
definition RESPONSE_CODE_SERVER_ERROR :: nat where "RESPONSE_CODE_SERVER_ERROR = 500"

definition RESPONSE_MESSAGE_BAD_REQUEST :: string where
  "RESPONSE_MESSAGE_BAD_REQUEST = ''Bad Request''"
definition RESPONSE_MESSAGE_NOT_FOUND :: string where
  "RESPONSE_MESSAGE_NOT_FOUND = ''Not Found''"
definition RESPONSE_MESSAGE_SERVER_ERROR :: string where
  "RESPONSE_MESSAGE_SERVER_ERROR = ''Server Error''"

definition HTTPResponseWriter_create :: HTTPResponse where
  "HTTPResponseWriter_create = \<lparr>m_status_code = 200, m_status_message = ''OK'', m_content = []\<rparr>"

definition setStatusCode :: "nat \<Rightarrow> HTTPResponse \<Rightarrow> HTTPResponse" where
  "setStatusCode n writer = writer\<lparr>m_status_code := n\<rparr>"

definition setStatusMessage :: "string \<Rightarrow> HTTPResponse \<Rightarrow> HTTPResponse" where
  "setStatusMessage msg writer = writer\<lparr>m_status_message := msg\<rparr>"

definition writeNoCopy :: "string \<Rightarrow> HTTPResponse \<Rightarrow> HTTPResponse" where
  "writeNoCopy data writer = writer\<lparr>m_content := m_content writer @ data\<rparr>"

text \<open>The stream operator \<^verbatim>\<open>writer << data\<close>.\<close>

definition stream_append :: "string \<Rightarrow> HTTPResponse \<Rightarrow> HTTPResponse" where
  "stream_append data writer = writer\<lparr>m_content := m_content writer @ data\<rparr>"

definition send :: "HTTPResponse \<Rightarrow> (connection \<Rightarrow> connection) \<Rightarrow> connection \<Rightarrow> connection" where
  "send writer finished tcp_conn = finished (tcp_conn\<lparr>m_written := m_written tcp_conn @ [writer]\<rparr>)"

definition BAD_REQUEST_HTML :: string where
  "BAD_REQUEST_HTML =
     ''<html><head>\<newline>''
     @ ''<title>400 Bad Request</title>\<newline>''
     @ ''</head><body>\<newline>''
     @ ''<h1>Bad Request</h1>\<newline>''
     @ ''<p>Your browser sent a request that this server could not understand.</p>\<newline>''
     @ ''</body></html>\<newline>''"

definition NOT_FOUND_HTML_START :: string where
  "NOT_FOUND_HTML_START =
     ''<html><head>\<newline>''
     @ ''<title>404 Not Found</title>\<newline>''
     @ ''</head><body>\<newline>''
     @ ''<h1>Not Found</h1>\<newline>''
     @ ''<p>The requested URL ''"

definition NOT_FOUND_HTML_FINISH :: string where
  "NOT_FOUND_HTML_FINISH =
     '' was not found on this server.</p>\<newline>''
     @ ''</body></html>\<newline>''"

definition SERVER_ERROR_HTML_START :: string where
  "SERVER_ERROR_HTML_START =
     ''<html><head>\<newline>''
     @ ''<title>500 Server Error</title>\<newline>''
     @ ''</head><body>\<newline>''
     @ ''<h1>Internal Server Error</h1>\<newline>''
     @ ''<p>The server encountered an internal error: <strong>''"

definition SERVER_ERROR_HTML_FINISH :: string where
  "SERVER_ERROR_HTML_FINISH =
     ''</strong></p>\<newline>''
     @ ''</body></html>\<newline>''"

definition handleBadRequest :: RequestHandler where
  "handleBadRequest http_request tcp_conn =
     (let writer = HTTPResponseWriter_create;
          writer = setStatusCode RESPONSE_CODE_BAD_REQUEST writer;
          writer = setStatusMessage RESPONSE_MESSAGE_BAD_REQUEST writer;
          writer = writeNoCopy BAD_REQUEST_HTML writer
      in (None, http_request, send writer finish tcp_conn))"

definition handleNotFoundRequest :: RequestHandler where
  "handleNotFoundRequest http_request tcp_conn =
     (let writer = HTTPResponseWriter_create;
          writer = setStatusCode RESPONSE_CODE_NOT_FOUND writer;
          writer = setStatusMessage RESPONSE_MESSAGE_NOT_FOUND writer;
          writer = writeNoCopy NOT_FOUND_HTML_START writer;
          writer = stream_append (getResource http_request) writer;
          writer = writeNoCopy NOT_FOUND_HTML_FINISH writer
      in (None, http_request, send writer finish tcp_conn))"

definition handleServerError :: ServerErrorHandler where
  "handleServerError http_request tcp_conn error_msg =
     (let writer = HTTPResponseWriter_create;
          writer = setStatusCode RESPONSE_CODE_SERVER_ERROR writer;
          writer = setStatusMessage RESPONSE_MESSAGE_SERVER_ERROR writer;
          writer = writeNoCopy SERVER_ERROR_HTML_START writer;
          writer = stream_append error_msg writer;
          writer = writeNoCopy SERVER_ERROR_HTML_FINISH writer
      in (None, http_request, send writer finish tcp_conn))"


section \<open>The dispatch engine\<close>

text \<open>
  The members of HTTPServer that handleRequest reads. The class is declared in
  server.hpp, which is not among the sources; the three responders are members that
  the default constructor binds to the static functions above (\<open>default_server\<close> below).
\<close>

record HTTPServer =
  m_resources :: "RequestHandler ResourceMap"
  m_redirects :: "string \<rightharpoonup> string"
  m_auth_ptr :: "HTTPAuth option"
  m_bad_request_handler :: RequestHandler
  m_not_found_handler :: RequestHandler
  m_server_error_handler :: ServerErrorHandler

definition MAX_REDIRECTS :: nat where
  "MAX_REDIRECTS = 10"

definition MAX_REDIRECTS_MESSAGE :: string where
  "MAX_REDIRECTS_MESSAGE =
     ''Maximum number of redirects (HTTPServer::MAX_REDIRECTS) exceeded for requested resource''"

text \<open>
  The calls handleRequest makes, in order, with what they were given and what came back:
  the observable course of one dispatch. Log output is left out.
\<close>

datatype call =
    set_lifecycle_call lifecycle_type
  | bad_request_handler_call HTTPRequest
  | finish_call
  | changeResource_call string
  | server_error_handler_call HTTPRequest string
  | auth_call HTTPRequest bool
  | findRequestHandler_call string bool
  | request_handler_call HTTPRequest "thrown option"
  | not_found_handler_call HTTPRequest

fun is_changeResource_call :: "call \<Rightarrow> bool" where
  "is_changeResource_call (changeResource_call s) = True"
| "is_changeResource_call c = False"

text \<open>
  \<open>dispatched_with r rq c\<close>: \<open>c\<close> is a call of the authentication gate or of the handler
  search and invocation, made with the look-up string \<open>r\<close> and the message \<open>rq\<close>.
\<close>

fun dispatched_with :: "string \<Rightarrow> HTTPRequest \<Rightarrow> call \<Rightarrow> bool" where
  "dispatched_with r rq (auth_call rq' ok) = (rq' = rq)"
| "dispatched_with r rq (findRequestHandler_call r' found) = (r' = r)"
| "dispatched_with r rq (request_handler_call rq' t) = (rq' = rq)"
| "dispatched_with r rq (not_found_handler_call rq') = (rq' = rq)"
| "dispatched_with r rq (server_error_handler_call rq' msg) = True"
| "dispatched_with r rq (set_lifecycle_call t) = False"
| "dispatched_with r rq (bad_request_handler_call rq') = False"
| "dispatched_with r rq finish_call = False"
| "dispatched_with r rq (changeResource_call s) = False"

text \<open>
  How handleRequest ends: the exception that leaves it, if any, the request and the
  connection as they are then, and the calls made.
\<close>

record outcome =
  o_thrown :: "thrown option"
  o_request :: HTTPRequest
  o_conn :: connection
  o_calls :: "call list"

definition returned :: "call list \<Rightarrow> effect \<Rightarrow> outcome" where
  "returned calls eff =
     \<lparr>o_thrown = fst eff, o_request = fst (snd eff), o_conn = snd (snd eff), o_calls = calls\<rparr>"

text \<open>
  The redirection loop (lines 60-71). \<open>it\<close> is the result of \<^verbatim>\<open>m_redirects.find\<close>:
  \<open>None\<close> for \<^verbatim>\<open>end()\<close>, otherwise the target \<^verbatim>\<open>it->second\<close>. The counter is an
  \<^verbatim>\<open>unsigned int\<close> in the source; it never passes 11 (lemma \<open>apply_redirects_shape\<close>), so
  it is a natural number here. The result says whether the loop left through the
  bound-exceeded branch.
\<close>

record redirect_result =
  r_exceeded :: bool
  r_num_redirects :: nat
  r_resource_requested :: string
  r_http_request :: HTTPRequest
  r_calls :: "call list"

function apply_redirects ::
  "(string \<rightharpoonup> string) \<Rightarrow> string option \<Rightarrow> nat \<Rightarrow> string \<Rightarrow> HTTPRequest \<Rightarrow> call list
     \<Rightarrow> redirect_result" where
  "apply_redirects redirects it num_redirects resource_requested http_request calls =
     (case it of
        None \<Rightarrow>
          \<lparr>r_exceeded = False, r_num_redirects = num_redirects,
           r_resource_requested = resource_requested, r_http_request = http_request,
           r_calls = calls\<rparr>
      | Some second \<Rightarrow>
          if Suc num_redirects > MAX_REDIRECTS then
            \<lparr>r_exceeded = True, r_num_redirects = Suc num_redirects,
             r_resource_requested = resource_requested, r_http_request = http_request,
             r_calls = calls\<rparr>
          else
            apply_redirects redirects (redirects second) (Suc num_redirects) second
              (changeResource second http_request) (calls @ [changeResource_call second]))"
  by pat_completeness auto
termination
  by (relation "measure (\<lambda>(redirects, it, num_redirects, rest). Suc MAX_REDIRECTS - num_redirects)")
     auto

text \<open>The try block around the handler call, with its two catch clauses (lines 92-106).\<close>

definition try_request_handler ::
  "HTTPServer \<Rightarrow> RequestHandler \<Rightarrow> HTTPRequest \<Rightarrow> connection \<Rightarrow> call list \<Rightarrow> outcome" where
  "try_request_handler srv request_handler http_request tcp_conn calls =
     (case request_handler http_request tcp_conn of (t, req, conn) \<Rightarrow>
        (case t of
           None \<Rightarrow>
             \<lparr>o_thrown = None, o_request = req, o_conn = conn,
              o_calls = calls @ [request_handler_call http_request None]\<rparr>
         | Some bad_alloc \<Rightarrow>
             \<lparr>o_thrown = Some bad_alloc, o_request = req, o_conn = conn,
              o_calls = calls @ [request_handler_call http_request (Some bad_alloc)]\<rparr>
         | Some (std_exception dynamic_type what) \<Rightarrow>
             returned
               (calls @ [request_handler_call http_request (Some (std_exception dynamic_type what)),
                         server_error_handler_call req
                           (diagnostic_information (std_exception dynamic_type what))])
               (m_server_error_handler srv req conn
                  (diagnostic_information (std_exception dynamic_type what)))
         | Some non_std_exception \<Rightarrow>
             \<lparr>o_thrown = Some non_std_exception, o_request = req, o_conn = conn,
              o_calls = calls @ [request_handler_call http_request (Some non_std_exception)]\<rparr>))"

text \<open>The search for a handler and its two branches (lines 87-117).\<close>

definition find_and_invoke ::
  "HTTPServer \<Rightarrow> string \<Rightarrow> HTTPRequest \<Rightarrow> connection \<Rightarrow> call list \<Rightarrow> outcome" where
  "find_and_invoke srv resource_requested http_request tcp_conn calls =
     (case findRequestHandler (m_resources srv) resource_requested of
        Some request_handler \<Rightarrow>
          try_request_handler srv request_handler http_request tcp_conn
            (calls @ [findRequestHandler_call resource_requested True])
      | None \<Rightarrow>
          returned
            (calls @ [findRequestHandler_call resource_requested False,
                      not_found_handler_call http_request])
            (m_not_found_handler srv http_request tcp_conn))"

text \<open>The authentication gate (lines 73-85) and what follows it.\<close>

definition authenticate_and_dispatch ::
  "HTTPServer \<Rightarrow> string \<Rightarrow> HTTPRequest \<Rightarrow> connection \<Rightarrow> call list \<Rightarrow> outcome" where
  "authenticate_and_dispatch srv resource_requested http_request tcp_conn calls =
     (case m_auth_ptr srv of
        Some auth \<Rightarrow>
          (case auth http_request tcp_conn of (ok, conn) \<Rightarrow>
             if \<not> ok then
               \<lparr>o_thrown = None, o_request = http_request, o_conn = conn,
                o_calls = calls @ [auth_call http_request False]\<rparr>
             else
               find_and_invoke srv resource_requested http_request conn
                 (calls @ [auth_call http_request True]))
      | None \<Rightarrow> find_and_invoke srv resource_requested http_request tcp_conn calls)"

text \<open>handleRequest (lines 37-118).\<close>

definition handleRequest ::
  "HTTPServer \<Rightarrow> HTTPRequest \<Rightarrow> connection \<Rightarrow> error_code \<Rightarrow> outcome" where
  "handleRequest srv http_request tcp_conn ec =
     (if ec_value ec \<noteq> 0 \<or> \<not> isValid http_request then
        if is_open (set_lifecycle LIFECYCLE_CLOSE tcp_conn)
           \<and> ec_category ec = parser_error_category
        then
          returned [set_lifecycle_call LIFECYCLE_CLOSE, bad_request_handler_call http_request]
            (m_bad_request_handler srv http_request (set_lifecycle LIFECYCLE_CLOSE tcp_conn))
        else
          \<lparr>o_thrown = None, o_request = http_request,
           o_conn = finish (set_lifecycle LIFECYCLE_CLOSE tcp_conn),
           o_calls = [set_lifecycle_call LIFECYCLE_CLOSE, finish_call]\<rparr>
      else
        (let resource_requested = stripTrailingSlash (getResource http_request);
             r = apply_redirects (m_redirects srv) (m_redirects srv resource_requested) 0
                   resource_requested http_request []
         in if r_exceeded r then
              returned
                (r_calls r @ [server_error_handler_call (r_http_request r) MAX_REDIRECTS_MESSAGE])
                (m_server_error_handler srv (r_http_request r) tcp_conn MAX_REDIRECTS_MESSAGE)
            else
              authenticate_and_dispatch srv (r_resource_requested r) (r_http_request r) tcp_conn
                (r_calls r)))"


text \<open>
  What the authentication gate of lines 74-85 gives for a message and a connection:
  whether dispatch goes on, and the connection as the gate leaves it (with no
  authenticator registered it goes on with the connection as it is); and the call the
  gate makes when it lets the request pass.
\<close>

definition auth_gate :: "HTTPServer \<Rightarrow> HTTPRequest \<Rightarrow> connection \<Rightarrow> bool \<times> connection" where
  "auth_gate srv http_request tcp_conn =
     (case m_auth_ptr srv of
        None \<Rightarrow> (True, tcp_conn)
      | Some auth \<Rightarrow> auth http_request tcp_conn)"

definition auth_calls :: "HTTPServer \<Rightarrow> HTTPRequest \<Rightarrow> call list" where
  "auth_calls srv http_request =
     (case m_auth_ptr srv of None \<Rightarrow> [] | Some auth \<Rightarrow> [auth_call http_request True])"


section \<open>Redirect chains\<close>

text \<open>
  \<open>follow t n r\<close>: the resource reached from \<open>r\<close> by \<open>n\<close> successive look-ups in the
  redirect table, if there are that many; \<open>targets t n r\<close>: the resources passed on the
  way. A chain of length \<open>n\<close> from \<open>r\<close> ends at a resource the table does not hold.
\<close>

fun follow :: "(string \<rightharpoonup> string) \<Rightarrow> nat \<Rightarrow> string \<Rightarrow> string option" where
  "follow t 0 r = Some r"
| "follow t (Suc n) r = (case t r of None \<Rightarrow> None | Some r' \<Rightarrow> follow t n r')"

fun targets :: "(string \<rightharpoonup> string) \<Rightarrow> nat \<Rightarrow> string \<Rightarrow> string list" where
  "targets t 0 r = []"
| "targets t (Suc n) r = (case t r of None \<Rightarrow> [] | Some r' \<Rightarrow> r' # targets t n r')"

definition chain_of_length :: "(string \<rightharpoonup> string) \<Rightarrow> nat \<Rightarrow> string \<Rightarrow> bool" where
  "chain_of_length t n r = (case follow t n r of None \<Rightarrow> False | Some r' \<Rightarrow> t r' = None)"

definition resolves_within :: "(string \<rightharpoonup> string) \<Rightarrow> nat \<Rightarrow> string \<Rightarrow> bool" where
  "resolves_within t n r = list_ex (\<lambda>k. chain_of_length t k r) [0..<Suc n]"


section \<open>Servers, requests and handlers to run the engine on\<close>

text \<open>
  A server as the constructor leaves it (no authenticator, the three responders bound
  to the static functions), with a given registry and redirect table; a request as the
  reader hands it over (the resource and the original resource both as sent); an open
  connection; the error code of a successful read and that of a parse error.
\<close>

definition default_server :: "RequestHandler ResourceMap \<Rightarrow> (string \<rightharpoonup> string) \<Rightarrow> HTTPServer" where
  "default_server resources redirects =
     \<lparr>m_resources = resources, m_redirects = redirects, m_auth_ptr = None,
      m_bad_request_handler = handleBadRequest,
      m_not_found_handler = handleNotFoundRequest,
      m_server_error_handler = handleServerError\<rparr>"

definition request_for :: "string \<Rightarrow> HTTPRequest" where
  "request_for r = \<lparr>m_resource = r, m_original_resource = r, m_is_valid = True\<rparr>"

definition open_connection :: connection where
  "open_connection =
     \<lparr>m_lifecycle = LIFECYCLE_KEEPALIVE, m_is_open = True, m_written = [], m_finish_calls = 0\<rparr>"

definition success :: error_code where
  "success = \<lparr>ec_value = 0, ec_category = system_category\<rparr>"

definition parse_error :: error_code where
  "parse_error = \<lparr>ec_value = 1, ec_category = parser_error_category\<rparr>"

definition io_error :: error_code where
  "io_error = \<lparr>ec_value = 104, ec_category = system_category\<rparr>"

definition throwing_handler :: "thrown \<Rightarrow> RequestHandler" where
  "throwing_handler e http_request tcp_conn = (Some e, http_request, tcp_conn)"

definition xy_cycle :: "string \<rightharpoonup> string" where
  "xy_cycle = [''/x'' \<mapsto> ''/y'', ''/y'' \<mapsto> ''/x'']"

definition returning_handler :: RequestHandler where
  "returning_handler http_request tcp_conn = (None, http_request, tcp_conn)"

definition self_loop :: "string \<rightharpoonup> string" where
  "self_loop = [''/a'' \<mapsto> ''/a'']"

definition old_mid_new :: "string \<rightharpoonup> string" where
  "old_mid_new = [''/old'' \<mapsto> ''/mid'', ''/mid'' \<mapsto> ''/new'']"

definition passing_auth :: HTTPAuth where
  "passing_auth http_request tcp_conn = (True, tcp_conn)"



section \<open>Properties of the registry\<close>

lemma compare0_prefix: "compare0 r (length k) k = prefix k r"
proof
  assume "compare0 r (length k) k"
  then have "take (length k) r = k" by (simp add: compare0_def min_def split: if_splits)
  then show "prefix k r" by (metis take_is_prefix)
next
  assume "prefix k r"
  then obtain s where "r = k @ s" by (auto simp: prefix_def)
  then show "compare0 r (length k) k" by (simp add: compare0_def)
qed

lemma string_at_in_range:
  assumes "fst e = [] \<or> compare0 r (length (fst e)) (fst e)" "length r \<noteq> length (fst e)"
  shows "length (fst e) < length r"
proof -
  have "prefix (fst e) r" using assms(1) by (auto simp: compare0_prefix)
  then show ?thesis using assms(2) by (auto simp: prefix_def)
qed

lemma accepts_matches:
  "((k = [] \<or> compare0 r (length k) k)
     \<and> (length r = length k \<or> string_at r (length k) = CHR ''/'')) = matches k r"
proof (cases "prefix k r")
  case False
  then have "k \<noteq> []" by auto
  moreover from False have "\<not> prefix (k @ ''/'') r" "r \<noteq> k" 
    using append_prefixD by auto
  ultimately show ?thesis using False by (simp add: compare0_prefix matches_def)
next
  case True
  then obtain s where s: "r = k @ s" by (auto simp: prefix_def)
  show ?thesis
  proof (cases s)
    case Nil
    with s show ?thesis by (simp add: matches_def compare0_prefix)
  next
    case (Cons c t)
    with s show ?thesis by (auto simp add: matches_def compare0_prefix string_at_def)
  qed
qed

lemma by_code_matches: "accept_by_code k r = matches k r"
proof (cases "prefix k r")
  case False
  then have "k \<noteq> []" by auto
  moreover from False have "\<not> prefix (k @ ''/'') r" "r \<noteq> k" 
    using append_prefixD by auto
  ultimately show ?thesis using False by (simp add: accept_by_code_def matches_def)
next
  case True
  then obtain s where s: "r = k @ s" by (auto simp: prefix_def)
  show ?thesis
  proof (cases s)
    case Nil
    with s show ?thesis by (simp add: matches_def accept_by_code_def)
  next
    case (Cons c t)
    with s show ?thesis by (auto simp add: matches_def accept_by_code_def)
  qed
qed

lemma walk_down_Suc:
  "walk_down m r (Suc i) =
     (if matches (fst (m ! i)) r then Some (snd (m ! i)) else walk_down m r i)"
  using accepts_matches [of "fst (m ! i)" r] by auto

lemma walk_down_None: "walk_down m r n = None \<Longrightarrow> i < n \<Longrightarrow> \<not> matches (fst (m ! i)) r"
proof (induction n)
  case 0 then show ?case by simp
next
  case (Suc n)
  then show ?case by (cases "i = n") (auto simp: walk_down_Suc simp del: walk_down.simps split: if_splits)
qed

lemma walk_down_Some:
  "walk_down m r n = Some h \<Longrightarrow>
     \<exists>i<n. matches (fst (m ! i)) r \<and> h = snd (m ! i)
        \<and> (\<forall>j<n. i < j \<longrightarrow> \<not> matches (fst (m ! j)) r)"
proof (induction n)
  case 0 then show ?case by simp
next
  case (Suc n)
  show ?case
  proof (cases "matches (fst (m ! n)) r")
    case True
    with Suc.prems have "h = snd (m ! n)" by (simp add: walk_down_Suc del: walk_down.simps)
    with True show ?thesis by (intro exI[of _ n]) auto
  next
    case False
    with Suc.prems have "walk_down m r n = Some h" by (simp add: walk_down_Suc del: walk_down.simps)
    from Suc.IH[OF this] obtain i where i: "i < n" "matches (fst (m ! i)) r" "h = snd (m ! i)"
      "\<forall>j<n. i < j \<longrightarrow> \<not> matches (fst (m ! j)) r" by blast
    have "\<forall>j<Suc n. i < j \<longrightarrow> \<not> matches (fst (m ! j)) r"
      using i(4) False less_Suc_eq by auto
    with i show ?thesis by (intro exI[of _ i]) auto
  qed
qed

lemma upper_bound_le: "upper_bound m k \<le> length m"
  by (induction m) auto

lemma upper_bound_below: "i < upper_bound m k \<Longrightarrow> fst (m ! i) \<le> k"
proof (induction m arbitrary: i)
  case Nil then show ?case by simp
next
  case (Cons e m)
  then show ?case by (cases i) (auto split: if_splits)
qed

lemma upper_bound_above:
  "sorted_wrt (<) (map fst m) \<Longrightarrow> i < length m \<Longrightarrow> fst (m ! i) \<le> k \<Longrightarrow> i < upper_bound m k"
proof (induction m arbitrary: i)
  case Nil then show ?case by simp
next
  case (Cons e m)
  show ?case
  proof (cases i)
    case 0
    with Cons.prems show ?thesis by auto
  next
    case (Suc j)
    with Cons.prems have j: "j < length m" "fst (m ! j) \<le> k" by auto
    then have "fst (m ! j) \<in> set (map fst m)" by (metis length_map nth_map nth_mem)
    with Cons.prems(1) have "fst e < fst (m ! j)" by auto
    with j have "\<not> k < fst e" by auto
    moreover have "j < upper_bound m k" using Cons.IH Cons.prems(1) j by auto
    ultimately show ?thesis using Suc by simp
  qed
qed

lemma prefix_le: "prefix k r \<Longrightarrow> k \<le> (r :: string)"
proof (induction k arbitrary: r)
  case Nil then show ?case by simp
next
  case (Cons c k)
  then show ?case by (cases r) auto
qed

lemma matches_prefix: "matches k r \<Longrightarrow> prefix k r"
  by (auto simp: matches_def dest: append_prefixD)

lemma prefixes_length:
  assumes "prefix k1 r" "prefix k2 r" "k1 \<le> (k2 :: string)"
  shows "length k1 \<le> length k2"
proof -
  from assms(1,2) consider "prefix k1 k2" | "prefix k2 k1"
    using prefix_same_cases by blast
  then show ?thesis
  proof cases
    case 1 then show ?thesis by (rule prefix_length_le)
  next
    case 2
    then have "k2 \<le> k1" by (rule prefix_le)
    with assms(3) have "k1 = k2" by simp
    then show ?thesis by simp
  qed
qed

lemma take_upper_bound:
  "sorted_wrt (<) (map fst m) \<Longrightarrow> take (upper_bound m k) m = filter (\<lambda>e. fst e \<le> k) m"
proof (induction m)
  case Nil then show ?case by simp
next
  case (Cons e m)
  show ?case
  proof (cases "k < fst e")
    case True
    have "\<forall>x\<in>set m. \<not> fst x \<le> k" using Cons.prems True by fastforce
    then have "filter (\<lambda>e. fst e \<le> k) m = []" by (simp add: filter_empty_conv)
    with True show ?thesis by simp
  next
    case False
    with Cons show ?thesis by simp
  qed
qed

lemma walk_down_find:
  "n \<le> length m \<Longrightarrow>
     walk_down m r n = map_option snd (List.find (\<lambda>e. matches (fst e) r) (rev (take n m)))"
proof (induction n)
  case 0 then show ?case by simp
next
  case (Suc n)
  then have "take (Suc n) m = take n m @ [m ! n]" by (simp add: take_Suc_conv_app_nth)
  with Suc show ?case by (simp add: walk_down_Suc del: walk_down.simps)
qed

lemma findRequestHandler_descending:
  assumes "ResourceMap_inv m"
  shows "findRequestHandler m R = descending_first accept_by_code m R"
proof (cases "m = []")
  case True then show ?thesis by (simp add: findRequestHandler_def descending_first_def)
next
  case False
  have "walk_down m R (upper_bound m R)
          = map_option snd (List.find (\<lambda>e. matches (fst e) R) (rev (take (upper_bound m R) m)))"
    by (rule walk_down_find) (rule upper_bound_le)
  also have "take (upper_bound m R) m = filter (\<lambda>e. fst e \<le> R) m"
    using assms by (simp add: take_upper_bound ResourceMap_inv_def)
  finally show ?thesis using False
    by (simp add: findRequestHandler_def descending_first_def by_code_matches)
qed

lemma inv_distinct: "ResourceMap_inv m \<Longrightarrow> distinct (map fst m)"
  unfolding ResourceMap_inv_def by (simp add: strict_sorted_iff)

lemma key_index: "K \<in> fst ` set m \<Longrightarrow> \<exists>i<length m. fst (m ! i) = K"
  by (force simp: in_set_conv_nth)

lemma findRequestHandler_longest:
  assumes inv: "ResourceMap_inv m" and K: "K \<in> fst ` set m" "matches K R"
  shows "\<exists>K' h. findRequestHandler m R = Some h \<and> map_of m K' = Some h \<and> matches K' R
           \<and> (\<forall>K''\<in>fst ` set m. matches K'' R \<longrightarrow> length K'' \<le> length K')"
proof -
  let ?ub = "upper_bound m R"
  have srt: "sorted_wrt (<) (map fst m)" using inv by (simp add: ResourceMap_inv_def)
  have ne: "m \<noteq> []" using K by auto
  have below: "i < ?ub" if "i < length m" "matches (fst (m ! i)) R" for i
  proof -
    have "fst (m ! i) \<le> R" using that(2) by (intro prefix_le matches_prefix)
    with srt that(1) show ?thesis by (rule upper_bound_above)
  qed
  from key_index[OF K(1)] obtain i0 where i0: "i0 < length m" "fst (m ! i0) = K" by blast
  have "walk_down m R ?ub \<noteq> None"
  proof
    assume "walk_down m R ?ub = None"
    from walk_down_None[OF this below[of i0]] i0 K(2) show False by simp
  qed
  then obtain h where h: "walk_down m R ?ub = Some h" by auto
  from walk_down_Some[OF this] obtain i where i: "i < ?ub" "matches (fst (m ! i)) R"
    "h = snd (m ! i)" "\<forall>j<?ub. i < j \<longrightarrow> \<not> matches (fst (m ! j)) R" by blast
  have il: "i < length m" using i(1) upper_bound_le[of m R] by simp
  then have "m ! i \<in> set m" by simp
  then have "(fst (m ! i), h) \<in> set m" using i(3) by simp
  then have mo: "map_of m (fst (m ! i)) = Some h" using inv_distinct[OF inv] by simp
  have "length K'' \<le> length (fst (m ! i))" if K'': "K'' \<in> fst ` set m" "matches K'' R" for K''
  proof -
    from key_index[OF K''(1)] obtain j where j: "j < length m" "fst (m ! j) = K''" by blast
    then have "j < ?ub" using below K''(2) by simp
    then have "\<not> i < j" using i(4) j(2) K''(2) by auto
    then consider "j = i" | "j < i" by linarith
    then have "K'' \<le> fst (m ! i)"
    proof cases
      case 1 with j show ?thesis by simp
    next
      case 2
      then have "map fst m ! j < map fst m ! i" using srt il by (simp add: sorted_wrt_iff_nth_less)
      then show ?thesis using j il by simp
    qed
    moreover have "prefix K'' R" "prefix (fst (m ! i)) R"
      using K''(2) i(2) by (auto intro: matches_prefix)
    ultimately show ?thesis using prefixes_length by blast
  qed
  with h mo i(2) ne show ?thesis by (auto simp: findRequestHandler_def)
qed

lemma findRequestHandler_key:
  assumes inv: "ResourceMap_inv m" and k: "map_of m k = Some h"
  shows "findRequestHandler m k = Some h"
proof -
  have "(k, h) \<in> set m" using k by (rule map_of_SomeD)
  then have km: "k \<in> fst ` set m" by force
  moreover have kk: "matches k k" by (simp add: matches_def)
  ultimately obtain K' h' where r: "findRequestHandler m k = Some h'" "map_of m K' = Some h'"
    "matches K' k" "\<forall>K''\<in>fst ` set m. matches K'' k \<longrightarrow> length K'' \<le> length K'"
    using findRequestHandler_longest[OF inv] by blast
  have "length k \<le> length K'" using r(4) km kk by blast
  moreover have "prefix K' k" using r(3) by (rule matches_prefix)
  ultimately have "K' = k" by (auto simp: prefix_def)
  with r(1,2) k show ?thesis by simp
qed

lemma map_insert_keys: "fst ` set (map_insert k v m) \<subseteq> insert k (fst ` set m)"
  by (induction m) auto

lemma map_insert_inv: "ResourceMap_inv m \<Longrightarrow> ResourceMap_inv (map_insert k v m)"
  unfolding ResourceMap_inv_def
proof (induction m)
  case Nil then show ?case by simp
next
  case (Cons e m)
  show ?case
  proof (cases "k < fst e \<or> k = fst e")
    case True
    with Cons.prems show ?thesis by auto
  next
    case False
    then have lt: "fst e < k" by auto
    have "fst e < x" if "x \<in> fst ` set (map_insert k v m)" for x
    proof -
      from that map_insert_keys[of k v m] have "x = k \<or> x \<in> fst ` set m" by auto
      then show ?thesis using lt Cons.prems by auto
    qed
    then show ?thesis using False Cons by auto
  qed
qed

lemma map_erase_keys: "fst ` set (map_erase k m) \<subseteq> fst ` set m"
  by (induction m) auto

lemma map_erase_inv: "ResourceMap_inv m \<Longrightarrow> ResourceMap_inv (map_erase k m)"
  unfolding ResourceMap_inv_def
proof (induction m)
  case Nil then show ?case by simp
next
  case (Cons e m)
  have "fst e < x" if "x \<in> fst ` set (map_erase k m)" for x
  proof -
    from that map_erase_keys[of k m] have "x \<in> fst ` set m" by auto
    then show ?thesis using Cons.prems by auto
  qed
  then show ?case using Cons by auto
qed

lemma map_of_map_insert:
  "ResourceMap_inv m \<Longrightarrow>
     map_of (map_insert k v m) k = Some (case map_of m k of None \<Rightarrow> v | Some g \<Rightarrow> g)"
  unfolding ResourceMap_inv_def
proof (induction m)
  case Nil then show ?case by simp
next
  case (Cons e m)
  show ?case
  proof (cases "k < fst e")
    case True
    have "k \<notin> fst ` set (e # m)" using Cons.prems True by fastforce
    then have "map_of (e # m) k = None" by (simp add: map_of_eq_None_iff del: map_of.simps)
    with True show ?thesis by simp
  next
    case False
    then show ?thesis using Cons by (cases e) auto
  qed
qed

lemma map_insert_present: "k \<in> fst ` set m \<Longrightarrow> ResourceMap_inv m \<Longrightarrow> map_insert k v m = m"
  unfolding ResourceMap_inv_def
proof (induction m)
  case Nil then show ?case by simp
next
  case (Cons e m)
  show ?case
  proof (cases "k = fst e")
    case True then show ?thesis by simp
  next
    case False
    with Cons.prems have km: "k \<in> fst ` set m" by auto
    have "\<forall>x\<in>set m. fst e < fst x" using Cons.prems by simp
    with km have "fst e < k" by auto
    then have "\<not> k < fst e" by simp
    with False km Cons show ?thesis by simp
  qed
qed

lemma map_insert_key: "k \<in> fst ` set (map_insert k v m)"
  by (induction m) auto

lemma map_erase_absent: "k \<notin> fst ` set m \<Longrightarrow> map_erase k m = m"
  by (induction m) auto

lemma map_erase_key: "ResourceMap_inv m \<Longrightarrow> k \<notin> fst ` set (map_erase k m)"
  unfolding ResourceMap_inv_def
proof (induction m)
  case Nil then show ?case by simp
next
  case (Cons e m)
  show ?case
  proof (cases "k = fst e")
    case True
    have "\<forall>x\<in>set m. fst e < fst x" using Cons.prems by simp
    then have "fst e \<notin> fst ` set m" by auto
    with True show ?thesis by simp
  next
    case False
    with Cons show ?thesis by simp
  qed
qed

lemma strip_matches: "matches (stripTrailingSlash K) K"
proof (cases "K \<noteq> [] \<and> last K = CHR ''/''")
  case True
  then have "K = butlast K @ ''/''" by (metis append_butlast_last_id)
  then have "prefix (butlast K @ ''/'') K" by simp
  with True show ?thesis by (simp add: stripTrailingSlash_def matches_def)
next
  case False
  then show ?thesis by (auto simp: stripTrailingSlash_def matches_def)
qed

lemma matches_below_strip:
  assumes "matches K' K" and "K' \<noteq> K"
  shows "length K' \<le> length (stripTrailingSlash K)"
proof -
  from assms have "prefix (K' @ ''/'') K" by (auto simp: matches_def)
  then have "length K' + 1 \<le> length K" using prefix_length_le by fastforce
  then show ?thesis by (auto simp: stripTrailingSlash_def)
qed

lemma findRequestHandler_at_added:
  assumes inv: "ResourceMap_inv m" and S: "map_of m (stripTrailingSlash K) = Some h"
    and K: "K \<notin> fst ` set m \<or> stripTrailingSlash K = K"
  shows "findRequestHandler m K = Some h"
proof -
  let ?S = "stripTrailingSlash K"
  have "(?S, h) \<in> set m" using S by (rule map_of_SomeD)
  then have Sm: "?S \<in> fst ` set m" by force
  from findRequestHandler_longest[OF inv Sm strip_matches] obtain K' h' where
    r: "findRequestHandler m K = Some h'" "map_of m K' = Some h'" "matches K' K"
       "\<forall>K''\<in>fst ` set m. matches K'' K \<longrightarrow> length K'' \<le> length K'" by blast
  have "(K', h') \<in> set m" using r(2) by (rule map_of_SomeD)
  then have K'm: "K' \<in> fst ` set m" by force
  have "K' = ?S"
  proof (cases "K' = K")
    case True
    with K'm K show ?thesis by auto
  next
    case False
    with r(3) have "length K' \<le> length ?S" by (rule matches_below_strip)
    moreover have "length ?S \<le> length K'" using r(4) Sm strip_matches by blast
    moreover have "prefix K' K" "prefix ?S K" using r(3) strip_matches by (auto intro: matches_prefix)
    ultimately show ?thesis
      by (metis le_antisym prefix_length_prefix prefix_order.antisym)
  qed
  with r(1,2) S show ?thesis by simp
qed

lemma map_insert_keys_eq: "fst ` set (map_insert k v m) = insert k (fst ` set m)"
  by (induction m) auto

lemma as_stated_matches: "accept_as_stated K R = (K = [] \<or> matches K R)"
proof (cases "K = []")
  case True then show ?thesis by (simp add: accept_as_stated_def)
next
  case False
  have "accept_as_stated K R = accept_by_code K R"
    using False by (simp add: accept_as_stated_def accept_by_code_def)
  with False show ?thesis by (simp add: by_code_matches)
qed

lemma find_catch_all:
  fixes xs :: "(string \<times> 'h) list"
  assumes "sorted_wrt (>) (map fst xs)" and "\<exists>e\<in>set xs. P e"
  shows "List.find (\<lambda>e. fst e = [] \<or> P e) xs = List.find P xs"
  using assms
proof (induction xs)
  case Nil then show ?case by simp
next
  case (Cons e xs)
  show ?case
  proof (cases "P e")
    case True then show ?thesis by simp
  next
    case False
    with Cons.prems(2) obtain e' where e': "e' \<in> set xs" "P e'" by auto
    with Cons.prems(1) have "fst e' < fst e" by auto
    then have ne: "fst e \<noteq> []" by auto
    have "List.find (\<lambda>e. fst e = [] \<or> P e) xs = List.find P xs"
      using Cons.IH Cons.prems(1) e' by auto
    with False ne show ?thesis by simp
  qed
qed

lemma descending_first_as_stated:
  assumes inv: "ResourceMap_inv m" and K: "K \<in> fst ` set m" "matches K R"
  shows "descending_first accept_as_stated m R = descending_first accept_by_code m R"
proof -
  let ?xs = "rev (filter (\<lambda>e. fst e \<le> R) m)"
  have "sorted_wrt (<) (map fst (filter (\<lambda>e. fst e \<le> R) m))"
    using inv by (simp add: ResourceMap_inv_def sorted_wrt_map sorted_wrt_filter)
  then have s: "sorted_wrt (>) (map fst ?xs)"
    by (simp add: sorted_wrt_rev rev_map[symmetric] del: rev_filter)
  from K obtain e where e: "e \<in> set m" "fst e = K" by auto
  have "K \<le> R" using K(2) by (intro prefix_le matches_prefix)
  with e K(2) have "e \<in> set ?xs" "matches (fst e) R" by simp_all
  then have ex: "\<exists>e\<in>set ?xs. matches (fst e) R" by blast
  have "List.find (\<lambda>e. fst e = [] \<or> matches (fst e) R) ?xs
        = List.find (\<lambda>e. matches (fst e) R) ?xs"
    using s ex by (rule find_catch_all)
  then show ?thesis
    by (simp add: descending_first_def as_stated_matches by_code_matches)
qed


section \<open>Properties of the redirection loop\<close>

declare apply_redirects.simps [simp del]

lemma apply_redirects_None:
  "apply_redirects t None n r req c =
     \<lparr>r_exceeded = False, r_num_redirects = n, r_resource_requested = r,
      r_http_request = req, r_calls = c\<rparr>"
  by (simp add: apply_redirects.simps)

lemma apply_redirects_Some:
  "apply_redirects t (Some s) n r req c =
     (if MAX_REDIRECTS < Suc n then
        \<lparr>r_exceeded = True, r_num_redirects = Suc n, r_resource_requested = r,
         r_http_request = req, r_calls = c\<rparr>
      else apply_redirects t (t s) (Suc n) s (changeResource s req) (c @ [changeResource_call s]))"
  by (subst apply_redirects.simps) simp

lemma apply_redirects_shape:
  "\<exists>xs e. apply_redirects t it n r req c =
       \<lparr>r_exceeded = e, r_num_redirects = n + length xs + (if e then 1 else 0),
        r_resource_requested = last (r # xs),
        r_http_request = (if xs = [] then req else req\<lparr>m_resource := last xs\<rparr>),
        r_calls = c @ map changeResource_call xs\<rparr>
     \<and> (e \<longrightarrow> MAX_REDIRECTS \<le> n + length xs)
     \<and> (n \<le> MAX_REDIRECTS \<longrightarrow> n + length xs \<le> MAX_REDIRECTS)
     \<and> (it = t r \<longrightarrow> \<not> e \<longrightarrow> t (last (r # xs)) = None)"
proof (induction t it n r req c rule: apply_redirects.induct)
  case (1 t it n r req c)
  show ?case
  proof (cases it)
    case None
    then show ?thesis
      by (intro exI[of _ "[]"] exI[of _ False]) (auto simp: apply_redirects_None)
  next
    case (Some s)
    show ?thesis
    proof (cases "MAX_REDIRECTS < Suc n")
      case True
      then show ?thesis using Some
        by (intro exI[of _ "[]"] exI[of _ True]) (auto simp: apply_redirects_Some)
    next
      case False
      from "1.IH"[OF Some False] obtain xs e where
        eq: "apply_redirects t (t s) (Suc n) s (changeResource s req) (c @ [changeResource_call s]) =
          \<lparr>r_exceeded = e, r_num_redirects = Suc n + length xs + (if e then 1 else 0),
           r_resource_requested = last (s # xs),
           r_http_request = (if xs = [] then changeResource s req
                             else (changeResource s req)\<lparr>m_resource := last xs\<rparr>),
           r_calls = (c @ [changeResource_call s]) @ map changeResource_call xs\<rparr>"
        and e: "e \<longrightarrow> MAX_REDIRECTS \<le> Suc n + length xs"
        and b: "Suc n \<le> MAX_REDIRECTS \<longrightarrow> Suc n + length xs \<le> MAX_REDIRECTS"
        and en: "\<not> e \<longrightarrow> t (last (s # xs)) = None"
        by blast
      show ?thesis
        apply (rule exI[of _ "s # xs"], rule exI[of _ e])
        using False Some eq e b en
        by (auto simp: apply_redirects_Some changeResource_def)
    qed
  qed
qed

lemma follow_Suc_right:
  "follow t (Suc n) r = (case follow t n r of None \<Rightarrow> None | Some x \<Rightarrow> t x)"
proof (induction n arbitrary: r)
  case 0 show ?case by (simp split: option.splits)
next
  case (Suc n)
  show ?case
  proof (cases "t r")
    case None then show ?thesis by simp
  next
    case (Some s)
    have "follow t (Suc (Suc n)) r = follow t (Suc n) s" using Some by simp
    also have "\<dots> = (case follow t n s of None \<Rightarrow> None | Some x \<Rightarrow> t x)" by (rule Suc.IH)
    also have "follow t n s = follow t (Suc n) r" using Some by simp
    finally show ?thesis .
  qed
qed

lemma resolves_within_iff: "resolves_within t n r = (\<exists>k\<le>n. chain_of_length t k r)"
proof -
  have "set [0..<Suc n] = {k. k \<le> n}" by auto
  then show ?thesis unfolding resolves_within_def list_ex_iff by blast
qed

lemma unresolved_follow:
  "\<not> resolves_within t n r \<Longrightarrow> follow t (Suc n) r \<noteq> None"
proof (induction n)
  case 0
  then have "\<not> chain_of_length t 0 r" by (simp add: resolves_within_iff)
  then show ?case by (simp add: chain_of_length_def split: option.splits)
next
  case (Suc n)
  then have a: "\<not> resolves_within t n r" and b: "\<not> chain_of_length t (Suc n) r"
    by (auto simp: resolves_within_iff)
  from Suc.IH[OF a] obtain x where x: "follow t (Suc n) r = Some x" by auto
  with b have "t x \<noteq> None" by (simp add: chain_of_length_def)
  then show ?case using x by (subst follow_Suc_right) simp
qed

lemma length_targets: "follow t n r \<noteq> None \<Longrightarrow> length (targets t n r) = n"
  by (induction n arbitrary: r) (auto split: option.splits)

lemma apply_redirects_chain:
  "follow t k r = Some r' \<Longrightarrow> t r' = None \<Longrightarrow> n + k \<le> MAX_REDIRECTS \<Longrightarrow>
     apply_redirects t (t r) n r req c =
       \<lparr>r_exceeded = False, r_num_redirects = n + k, r_resource_requested = r',
        r_http_request = (if k = 0 then req else req\<lparr>m_resource := r'\<rparr>),
        r_calls = c @ map changeResource_call (targets t k r)\<rparr>"
proof (induction k arbitrary: n r req c)
  case 0
  then show ?case by (simp add: apply_redirects_None)
next
  case (Suc k)
  then obtain s where s: "t r = Some s" by (auto split: option.splits)
  with Suc.prems have f: "follow t k s = Some r'" by simp
  have le: "Suc n + k \<le> MAX_REDIRECTS" using Suc.prems by simp
  have k0: "k = 0 \<Longrightarrow> s = r'" using f by simp
  show ?case
    using Suc.IH[OF f Suc.prems(2) le, of "changeResource s req" "c @ [changeResource_call s]"]
      s le k0
    by (auto simp: apply_redirects_Some changeResource_def)
qed

lemma apply_redirects_exceeded:
  "follow t (Suc d) r \<noteq> None \<Longrightarrow> n + d = MAX_REDIRECTS \<Longrightarrow>
     apply_redirects t (t r) n r req c =
       \<lparr>r_exceeded = True, r_num_redirects = Suc MAX_REDIRECTS,
        r_resource_requested = the (follow t d r),
        r_http_request = (if d = 0 then req else req\<lparr>m_resource := the (follow t d r)\<rparr>),
        r_calls = c @ map changeResource_call (targets t d r)\<rparr>"
proof (induction d arbitrary: n r req c)
  case 0
  then obtain s where s: "t r = Some s" by (auto split: option.splits)
  with 0 show ?case by (simp add: apply_redirects_Some)
next
  case (Suc d)
  then obtain s where s: "t r = Some s" by (auto split: option.splits)
  with Suc.prems have f: "follow t (Suc d) s \<noteq> None" by simp
  have le: "Suc n + d = MAX_REDIRECTS" using Suc.prems by simp
  have d0: "d = 0 \<Longrightarrow> the (follow t d s) = s" by simp
  show ?case
    using Suc.IH[OF f le, of "changeResource s req" "c @ [changeResource_call s]"] s le d0
    by (auto simp: apply_redirects_Some changeResource_def)
qed


section \<open>Properties of the responders and of handleRequest\<close>

lemma handleServerError_eq:
  "handleServerError req conn msg =
     (None, req,
      finish (conn\<lparr>m_written := m_written conn @
        [\<lparr>m_status_code = 500, m_status_message = ''Server Error'',
          m_content = SERVER_ERROR_HTML_START @ msg @ SERVER_ERROR_HTML_FINISH\<rparr>]\<rparr>))"
  by (simp add: handleServerError_def HTTPResponseWriter_create_def setStatusCode_def
      setStatusMessage_def writeNoCopy_def stream_append_def send_def
      RESPONSE_CODE_SERVER_ERROR_def RESPONSE_MESSAGE_SERVER_ERROR_def)

lemma handleNotFoundRequest_eq:
  "handleNotFoundRequest req conn =
     (None, req,
      finish (conn\<lparr>m_written := m_written conn @
        [\<lparr>m_status_code = 404, m_status_message = ''Not Found'',
          m_content = NOT_FOUND_HTML_START @ getResource req @ NOT_FOUND_HTML_FINISH\<rparr>]\<rparr>))"
  by (simp add: handleNotFoundRequest_def HTTPResponseWriter_create_def setStatusCode_def
      setStatusMessage_def writeNoCopy_def stream_append_def send_def
      RESPONSE_CODE_NOT_FOUND_def RESPONSE_MESSAGE_NOT_FOUND_def)

lemma handleBadRequest_eq:
  "handleBadRequest req conn =
     (None, req,
      finish (conn\<lparr>m_written := m_written conn @
        [\<lparr>m_status_code = 400, m_status_message = ''Bad Request'',
          m_content = BAD_REQUEST_HTML\<rparr>]\<rparr>))"
  by (simp add: handleBadRequest_def HTTPResponseWriter_create_def setStatusCode_def
      setStatusMessage_def writeNoCopy_def send_def
      RESPONSE_CODE_BAD_REQUEST_def RESPONSE_MESSAGE_BAD_REQUEST_def)

lemma written_finish: "m_written (finish conn) = m_written conn"
  by (simp add: finish_def)

lemma handleRequest_error:
  "ec_value ec \<noteq> 0 \<or> \<not> isValid req \<Longrightarrow>
   handleRequest srv req conn ec =
     (if is_open conn \<and> ec_category ec = parser_error_category then
        returned [set_lifecycle_call LIFECYCLE_CLOSE, bad_request_handler_call req]
          (m_bad_request_handler srv req (conn\<lparr>m_lifecycle := LIFECYCLE_CLOSE\<rparr>))
      else
        \<lparr>o_thrown = None, o_request = req,
         o_conn = conn\<lparr>m_lifecycle := LIFECYCLE_CLOSE, m_is_open := False,
                       m_finish_calls := Suc (m_finish_calls conn)\<rparr>,
         o_calls = [set_lifecycle_call LIFECYCLE_CLOSE, finish_call]\<rparr>)"
  by (simp add: handleRequest_def set_lifecycle_def is_open_def finish_def)

lemma handleRequest_valid:
  "ec_value ec = 0 \<Longrightarrow> isValid req \<Longrightarrow>
   handleRequest srv req conn ec =
     (if r_exceeded (apply_redirects (m_redirects srv)
            (m_redirects srv (stripTrailingSlash (getResource req))) 0
            (stripTrailingSlash (getResource req)) req [])
      then returned
        (r_calls (apply_redirects (m_redirects srv)
            (m_redirects srv (stripTrailingSlash (getResource req))) 0
            (stripTrailingSlash (getResource req)) req [])
          @ [server_error_handler_call
               (r_http_request (apply_redirects (m_redirects srv)
                  (m_redirects srv (stripTrailingSlash (getResource req))) 0
                  (stripTrailingSlash (getResource req)) req []))
               MAX_REDIRECTS_MESSAGE])
        (m_server_error_handler srv
           (r_http_request (apply_redirects (m_redirects srv)
              (m_redirects srv (stripTrailingSlash (getResource req))) 0
              (stripTrailingSlash (getResource req)) req []))
           conn MAX_REDIRECTS_MESSAGE)
      else authenticate_and_dispatch srv
        (r_resource_requested (apply_redirects (m_redirects srv)
            (m_redirects srv (stripTrailingSlash (getResource req))) 0
            (stripTrailingSlash (getResource req)) req []))
        (r_http_request (apply_redirects (m_redirects srv)
            (m_redirects srv (stripTrailingSlash (getResource req))) 0
            (stripTrailingSlash (getResource req)) req []))
        conn
        (r_calls (apply_redirects (m_redirects srv)
            (m_redirects srv (stripTrailingSlash (getResource req))) 0
            (stripTrailingSlash (getResource req)) req [])))"
  by (simp add: handleRequest_def Let_def)

lemma handleRequest_exceeded:
  assumes ok: "ec_value ec = 0" "isValid req"
    and un: "\<not> resolves_within (m_redirects srv) MAX_REDIRECTS (stripTrailingSlash (getResource req))"
    and se: "m_server_error_handler srv = handleServerError"
  shows "\<exists>r'. follow (m_redirects srv) MAX_REDIRECTS (stripTrailingSlash (getResource req)) = Some r'
      \<and> handleRequest srv req conn ec =
          \<lparr>o_thrown = None, o_request = req\<lparr>m_resource := r'\<rparr>,
           o_conn = finish (conn\<lparr>m_written := m_written conn @
             [\<lparr>m_status_code = 500, m_status_message = ''Server Error'',
               m_content = SERVER_ERROR_HTML_START @ MAX_REDIRECTS_MESSAGE
                             @ SERVER_ERROR_HTML_FINISH\<rparr>]\<rparr>),
           o_calls = map changeResource_call
                       (targets (m_redirects srv) MAX_REDIRECTS
                          (stripTrailingSlash (getResource req)))
                     @ [server_error_handler_call (req\<lparr>m_resource := r'\<rparr>)
                          MAX_REDIRECTS_MESSAGE]\<rparr>"
proof -
  let ?t = "m_redirects srv" and ?r = "stripTrailingSlash (getResource req)"
  have f: "follow ?t (Suc MAX_REDIRECTS) ?r \<noteq> None" using un by (rule unresolved_follow)
  then obtain r' where r': "follow ?t MAX_REDIRECTS ?r = Some r'"
    by (subst (asm) follow_Suc_right) (auto split: option.splits)
  have "apply_redirects ?t (?t ?r) 0 ?r req [] =
       \<lparr>r_exceeded = True, r_num_redirects = Suc MAX_REDIRECTS,
        r_resource_requested = r',
        r_http_request = req\<lparr>m_resource := r'\<rparr>,
        r_calls = map changeResource_call (targets ?t MAX_REDIRECTS ?r)\<rparr>"
    using apply_redirects_exceeded[OF f, of 0 req "[]"] r' by (simp add: MAX_REDIRECTS_def)
  then show ?thesis using r' se
    by (simp add: handleRequest_valid[OF ok] handleServerError_eq returned_def)
qed

lemma xy_unresolved: "\<not> resolves_within xy_cycle MAX_REDIRECTS ''/x''"
  by (simp add: resolves_within_def MAX_REDIRECTS_def chain_of_length_def xy_cycle_def upt_rec)

lemma try_request_handler_bad_alloc:
  "fst (h rq cn) = Some bad_alloc \<Longrightarrow>
   try_request_handler srv h rq cn pre =
     \<lparr>o_thrown = Some bad_alloc, o_request = fst (snd (h rq cn)), o_conn = snd (snd (h rq cn)),
      o_calls = pre @ [request_handler_call rq (Some bad_alloc)]\<rparr>"
  by (cases "h rq cn") (simp add: try_request_handler_def)

lemma try_request_handler_std_exception:
  "fst (h rq cn) = Some (std_exception ty w) \<Longrightarrow>
   try_request_handler srv h rq cn pre =
     returned
       (pre @ [request_handler_call rq (Some (std_exception ty w)),
               server_error_handler_call (fst (snd (h rq cn)))
                 (diagnostic_information (std_exception ty w))])
       (m_server_error_handler srv (fst (snd (h rq cn))) (snd (snd (h rq cn)))
          (diagnostic_information (std_exception ty w)))"
  by (cases "h rq cn") (simp add: try_request_handler_def)

lemma try_request_handler_calls:
  "\<exists>post. o_calls (try_request_handler srv h rq cn pre)
             = pre @ request_handler_call rq (fst (h rq cn)) # post
     \<and> list_all (dispatched_with r rq) post"
  by (cases "h rq cn")
     (auto simp: try_request_handler_def returned_def split: option.splits thrown.splits)

lemma find_and_invoke_calls:
  "\<exists>post. o_calls (find_and_invoke srv r rq cn pre) = pre @ post
     \<and> list_all (dispatched_with r rq) post"
proof (cases "findRequestHandler (m_resources srv) r")
  case None
  then show ?thesis by (simp add: find_and_invoke_def returned_def)
next
  case (Some h)
  from try_request_handler_calls[of srv h rq cn "pre @ [findRequestHandler_call r True]" r]
  obtain post where "o_calls (try_request_handler srv h rq cn (pre @ [findRequestHandler_call r True]))
       = (pre @ [findRequestHandler_call r True]) @ request_handler_call rq (fst (h rq cn)) # post"
    "list_all (dispatched_with r rq) post" by blast
  then show ?thesis using Some
    by (intro exI[of _ "findRequestHandler_call r True # request_handler_call rq (fst (h rq cn)) # post"])
       (simp add: find_and_invoke_def)
qed

lemma authenticate_and_dispatch_calls:
  "\<exists>post. o_calls (authenticate_and_dispatch srv r rq cn pre) = pre @ post
     \<and> list_all (dispatched_with r rq) post"
proof (cases "m_auth_ptr srv")
  case None
  then show ?thesis using find_and_invoke_calls[of srv r rq cn pre]
    by (simp add: authenticate_and_dispatch_def)
next
  case (Some auth)
  obtain ok cn' where a: "auth rq cn = (ok, cn')" by (cases "auth rq cn")
  show ?thesis
  proof (cases ok)
    case False
    then show ?thesis using Some a by (simp add: authenticate_and_dispatch_def)
  next
    case True
    from find_and_invoke_calls[of srv r rq cn' "pre @ [auth_call rq True]"]
    obtain post where "o_calls (find_and_invoke srv r rq cn' (pre @ [auth_call rq True]))
        = (pre @ [auth_call rq True]) @ post" "list_all (dispatched_with r rq) post" by blast
    then show ?thesis using Some a True
      by (intro exI[of _ "auth_call rq True # post"]) (simp add: authenticate_and_dispatch_def)
  qed
qed

lemma handler_call_outcome:
  assumes "request_handler_call rq' t \<in> set (o_calls (authenticate_and_dispatch srv r rq cn pre))"
    and "request_handler_call rq' t \<notin> set pre"
  shows "\<exists>h cn' pre'. authenticate_and_dispatch srv r rq cn pre = try_request_handler srv h rq cn' pre'
           \<and> fst (h rq cn') = t \<and> rq' = rq"
proof -
  have fi: "\<exists>h pre'. find_and_invoke srv r rq c p = try_request_handler srv h rq c pre'
           \<and> fst (h rq c) = t \<and> rq' = rq"
    if "request_handler_call rq' t \<in> set (o_calls (find_and_invoke srv r rq c p))"
       "request_handler_call rq' t \<notin> set p" for c p
  proof (cases "findRequestHandler (m_resources srv) r")
    case None
    with that show ?thesis by (simp add: find_and_invoke_def returned_def)
  next
    case (Some h)
    then have eq: "find_and_invoke srv r rq c p
        = try_request_handler srv h rq c (p @ [findRequestHandler_call r True])"
      by (simp add: find_and_invoke_def)
    have "fst (h rq c) = t \<and> rq' = rq"
      using that unfolding eq
      by (cases "h rq c")
         (auto simp: try_request_handler_def returned_def split: option.splits thrown.splits)
    with eq show ?thesis by blast
  qed
  show ?thesis
  proof (cases "m_auth_ptr srv")
    case None
    then show ?thesis using fi[of cn pre] assms by (simp add: authenticate_and_dispatch_def) blast
  next
    case (Some auth)
    obtain ok cn' where a: "auth rq cn = (ok, cn')" by (cases "auth rq cn")
    show ?thesis
    proof (cases ok)
      case False
      then show ?thesis using Some a assms by (simp add: authenticate_and_dispatch_def)
    next
      case True
      then show ?thesis using Some a assms fi[of cn' "pre @ [auth_call rq True]"]
        by (simp add: authenticate_and_dispatch_def) blast
    qed
  qed
qed

text \<open>The three ways through handleRequest.\<close>

lemma handleRequest_cases:
  obtains
    (error) "ec_value ec \<noteq> 0 \<or> \<not> isValid req"
      "set (o_calls (handleRequest srv req conn ec))
         \<subseteq> {set_lifecycle_call LIFECYCLE_CLOSE, bad_request_handler_call req, finish_call}"
  | (exceeded) xs rq where "ec_value ec = 0" "isValid req" "length xs = MAX_REDIRECTS"
      "handleRequest srv req conn ec =
         returned (map changeResource_call xs @ [server_error_handler_call rq MAX_REDIRECTS_MESSAGE])
           (m_server_error_handler srv rq conn MAX_REDIRECTS_MESSAGE)"
  | (dispatch) xs where "ec_value ec = 0" "isValid req" "length xs \<le> MAX_REDIRECTS"
      "apply_redirects (m_redirects srv) (m_redirects srv (stripTrailingSlash (getResource req))) 0
         (stripTrailingSlash (getResource req)) req [] =
        \<lparr>r_exceeded = False, r_num_redirects = length xs,
         r_resource_requested = last (stripTrailingSlash (getResource req) # xs),
         r_http_request = (if xs = [] then req else req\<lparr>m_resource := last xs\<rparr>),
         r_calls = map changeResource_call xs\<rparr>"
      "handleRequest srv req conn ec =
         authenticate_and_dispatch srv (last (stripTrailingSlash (getResource req) # xs))
           (if xs = [] then req else req\<lparr>m_resource := last xs\<rparr>) conn
           (map changeResource_call xs)"
proof (cases "ec_value ec \<noteq> 0 \<or> \<not> isValid req")
  case True
  then have "set (o_calls (handleRequest srv req conn ec))
         \<subseteq> {set_lifecycle_call LIFECYCLE_CLOSE, bad_request_handler_call req, finish_call}"
    by (auto simp: handleRequest_error returned_def)
  with True show ?thesis by (rule error)
next
  case False
  then have ok: "ec_value ec = 0" "isValid req" by auto
  let ?t = "m_redirects srv" and ?r = "stripTrailingSlash (getResource req)"
  from apply_redirects_shape[of ?t "?t ?r" 0 ?r req "[]"] obtain xs e where
    eq: "apply_redirects ?t (?t ?r) 0 ?r req [] =
       \<lparr>r_exceeded = e, r_num_redirects = 0 + length xs + (if e then 1 else 0),
        r_resource_requested = last (?r # xs),
        r_http_request = (if xs = [] then req else req\<lparr>m_resource := last xs\<rparr>),
        r_calls = [] @ map changeResource_call xs\<rparr>"
    and e: "e \<longrightarrow> MAX_REDIRECTS \<le> 0 + length xs"
    and b: "0 \<le> MAX_REDIRECTS \<longrightarrow> 0 + length xs \<le> MAX_REDIRECTS"
    by blast
  show ?thesis
  proof (cases e)
    case True
    then have "length xs = MAX_REDIRECTS" using e b by simp
    moreover have "handleRequest srv req conn ec =
         returned (map changeResource_call xs
            @ [server_error_handler_call (if xs = [] then req else req\<lparr>m_resource := last xs\<rparr>)
                 MAX_REDIRECTS_MESSAGE])
           (m_server_error_handler srv (if xs = [] then req else req\<lparr>m_resource := last xs\<rparr>)
              conn MAX_REDIRECTS_MESSAGE)"
      using True eq by (simp add: handleRequest_valid[OF ok])
    ultimately show ?thesis using ok by (intro exceeded[of xs])
  next
    case False
    then have "handleRequest srv req conn ec =
         authenticate_and_dispatch srv (last (?r # xs))
           (if xs = [] then req else req\<lparr>m_resource := last xs\<rparr>) conn
           (map changeResource_call xs)"
      using eq by (simp add: handleRequest_valid[OF ok])
    moreover have "apply_redirects ?t (?t ?r) 0 ?r req [] =
        \<lparr>r_exceeded = False, r_num_redirects = length xs,
         r_resource_requested = last (?r # xs),
         r_http_request = (if xs = [] then req else req\<lparr>m_resource := last xs\<rparr>),
         r_calls = map changeResource_call xs\<rparr>"
      using eq False by simp
    ultimately show ?thesis using ok b by (intro dispatch[of xs]) simp_all
  qed
qed

lemma sublist_what:
  "sublist w (SERVER_ERROR_HTML_START @ diagnostic_information (std_exception ty w)
                @ SERVER_ERROR_HTML_FINISH)"
proof -
  have "SERVER_ERROR_HTML_START @ diagnostic_information (std_exception ty w)
          @ SERVER_ERROR_HTML_FINISH
        = (SERVER_ERROR_HTML_START @ ''Dynamic exception type: '' @ ty @ ''\<newline>''
             @ ''std::exception::what: '') @ w @ (''\<newline>'' @ SERVER_ERROR_HTML_FINISH)"
    by simp
  then show ?thesis unfolding sublist_def by blast
qed

lemma sublist_middle: "sublist m (a @ m @ b)"
  unfolding sublist_def by blast

lemma run_boom:
  "handleRequest (default_server [(''/boom'', throwing_handler e)] Map.empty)
     (request_for ''/boom'') open_connection success
   = try_request_handler (default_server [(''/boom'', throwing_handler e)] Map.empty)
       (throwing_handler e) (request_for ''/boom'') open_connection
       [findRequestHandler_call ''/boom'' True]"
  by (simp add: handleRequest_def Let_def success_def request_for_def isValid_def getResource_def
      stripTrailingSlash_def default_server_def apply_redirects_None
      authenticate_and_dispatch_def find_and_invoke_def findRequestHandler_def compare0_def)

lemma run_not_found:
  "handleRequest (default_server [] Map.empty) (request_for r) open_connection success
   = \<lparr>o_thrown = None, o_request = request_for r,
      o_conn = \<lparr>m_lifecycle = LIFECYCLE_KEEPALIVE, m_is_open = True,
                m_written = [\<lparr>m_status_code = 404, m_status_message = ''Not Found'',
                               m_content = NOT_FOUND_HTML_START @ r @ NOT_FOUND_HTML_FINISH\<rparr>],
                m_finish_calls = 1\<rparr>,
      o_calls = [findRequestHandler_call (stripTrailingSlash r) False,
                 not_found_handler_call (request_for r)]\<rparr>"
  by (simp add: handleRequest_def Let_def success_def request_for_def isValid_def getResource_def
      default_server_def apply_redirects_None authenticate_and_dispatch_def find_and_invoke_def
      findRequestHandler_def handleNotFoundRequest_eq returned_def open_connection_def finish_def)

lemma apply_redirects_original:
  "getOriginalResource (r_http_request (apply_redirects t it k r req c)) = getOriginalResource req
   \<and> isValid (r_http_request (apply_redirects t it k r req c)) = isValid req"
proof -
  from apply_redirects_shape[of t it k r req c] obtain xs e where
    "apply_redirects t it k r req c =
       \<lparr>r_exceeded = e, r_num_redirects = k + length xs + (if e then 1 else 0),
        r_resource_requested = last (r # xs),
        r_http_request = (if xs = [] then req else req\<lparr>m_resource := last xs\<rparr>),
        r_calls = c @ map changeResource_call xs\<rparr>" by blast
  then show ?thesis by (simp add: getOriginalResource_def isValid_def)
qed

lemma run_old_new:
  "handleRequest (default_server [(''/new'', returning_handler)] old_mid_new)
     (request_for ''/old/'') open_connection success
   = \<lparr>o_thrown = None,
      o_request = \<lparr>m_resource = ''/new'', m_original_resource = ''/old/'', m_is_valid = True\<rparr>,
      o_conn = open_connection,
      o_calls = [changeResource_call ''/mid'', changeResource_call ''/new'',
                 findRequestHandler_call ''/new'' True,
                 request_handler_call
                   \<lparr>m_resource = ''/new'', m_original_resource = ''/old/'', m_is_valid = True\<rparr>
                   None]\<rparr>"
  by (simp add: handleRequest_def Let_def success_def request_for_def isValid_def getResource_def
      stripTrailingSlash_def default_server_def old_mid_new_def apply_redirects_None
      apply_redirects_Some MAX_REDIRECTS_def changeResource_def
      authenticate_and_dispatch_def find_and_invoke_def findRequestHandler_def compare0_def
      try_request_handler_def returning_handler_def)

lemma try_request_handler_non_std:
  "fst (h rq cn) = Some non_std_exception \<Longrightarrow>
   try_request_handler srv h rq cn pre =
     \<lparr>o_thrown = Some non_std_exception, o_request = fst (snd (h rq cn)),
      o_conn = snd (snd (h rq cn)),
      o_calls = pre @ [request_handler_call rq (Some non_std_exception)]\<rparr>"
  by (cases "h rq cn") (simp add: try_request_handler_def)

lemma authenticate_passes:
  assumes "auth_gate srv rq conn = (True, conn_a)"
  shows "authenticate_and_dispatch srv r rq conn pre
           = find_and_invoke srv r rq conn_a (pre @ auth_calls srv rq)"
proof (cases "m_auth_ptr srv")
  case None
  with assms show ?thesis
    by (simp add: authenticate_and_dispatch_def auth_gate_def auth_calls_def)
next
  case (Some auth)
  with assms have "auth rq conn = (True, conn_a)" by (simp add: auth_gate_def)
  with Some show ?thesis
    by (simp add: authenticate_and_dispatch_def auth_calls_def)
qed

lemma handleRequest_reaches_lookup:
  assumes ok: "ec_value ec = 0" "isValid req"
    and ch: "follow (m_redirects srv) n (stripTrailingSlash (getResource req)) = Some r'"
      "m_redirects srv r' = None" "n \<le> MAX_REDIRECTS"
    and au: "auth_gate srv (if n = 0 then req else req\<lparr>m_resource := r'\<rparr>) conn = (True, conn_a)"
  shows "handleRequest srv req conn ec
           = find_and_invoke srv r' (if n = 0 then req else req\<lparr>m_resource := r'\<rparr>) conn_a
               (map changeResource_call
                  (targets (m_redirects srv) n (stripTrailingSlash (getResource req)))
                @ auth_calls srv (if n = 0 then req else req\<lparr>m_resource := r'\<rparr>))"
proof -
  let ?t = "m_redirects srv" and ?r = "stripTrailingSlash (getResource req)"
  let ?rq = "if n = 0 then req else req\<lparr>m_resource := r'\<rparr>"
  have loop: "apply_redirects ?t (?t ?r) 0 ?r req []
          = \<lparr>r_exceeded = False, r_num_redirects = n, r_resource_requested = r',
             r_http_request = ?rq, r_calls = map changeResource_call (targets ?t n ?r)\<rparr>"
    using apply_redirects_chain[OF ch(1,2), of 0 req "[]"] ch(3) by simp
  have "handleRequest srv req conn ec
          = authenticate_and_dispatch srv r' ?rq conn (map changeResource_call (targets ?t n ?r))"
    by (simp add: handleRequest_valid[OF ok] loop)
  then show ?thesis using authenticate_passes[OF au] by simp
qed

lemma lookup_invokes_handler:
  assumes "ec_value ec = 0" and "isValid req"
    and "follow (m_redirects srv) n (stripTrailingSlash (getResource req)) = Some r'"
    and "m_redirects srv r' = None" and "n \<le> MAX_REDIRECTS"
    and "auth_gate srv (if n = 0 then req else req\<lparr>m_resource := r'\<rparr>) conn = (True, conn_a)"
    and "findRequestHandler (m_resources srv) r' = Some h"
  shows "request_handler_call (if n = 0 then req else req\<lparr>m_resource := r'\<rparr>)
           (fst (h (if n = 0 then req else req\<lparr>m_resource := r'\<rparr>) conn_a))
         \<in> set (o_calls (handleRequest srv req conn ec))"
proof -
  let ?rq = "if n = 0 then req else req\<lparr>m_resource := r'\<rparr>"
  let ?pre = "map changeResource_call
                  (targets (m_redirects srv) n (stripTrailingSlash (getResource req)))
                @ auth_calls srv ?rq"
  have "handleRequest srv req conn ec
          = try_request_handler srv h ?rq conn_a (?pre @ [findRequestHandler_call r' True])"
    unfolding handleRequest_reaches_lookup[OF assms(1-6)]
    using assms(7) by (simp add: find_and_invoke_def)
  moreover from try_request_handler_calls[of srv h ?rq conn_a
      "?pre @ [findRequestHandler_call r' True]" r']
  obtain post where "o_calls (try_request_handler srv h ?rq conn_a
      (?pre @ [findRequestHandler_call r' True]))
      = (?pre @ [findRequestHandler_call r' True]) @ request_handler_call ?rq (fst (h ?rq conn_a)) # post"
    by blast
  ultimately show ?thesis by simp
qed

lemma run_throw:
  "handleRequest (default_server [(''/throw'', throwing_handler e)] Map.empty)
     (request_for ''/throw'') open_connection success
   = try_request_handler (default_server [(''/throw'', throwing_handler e)] Map.empty)
       (throwing_handler e) (request_for ''/throw'') open_connection
       [findRequestHandler_call ''/throw'' True]"
  by (simp add: handleRequest_def Let_def success_def request_for_def isValid_def getResource_def
      stripTrailingSlash_def default_server_def apply_redirects_None
      authenticate_and_dispatch_def find_and_invoke_def findRequestHandler_def compare0_def)

lemma miss_a: "findRequestHandler [(''/a'', returning_handler)] ''/b'' = None"
  "findRequestHandler [(''/a'', returning_handler)] ''/new'' = None"
  by (simp_all add: findRequestHandler_def compare0_def)


section \<open>The claims about the registry\<close>

text \<open>
  C1. For every registry and every resource \<open>R\<close>: if the registry holds a key \<open>K\<close> with
  \<open>R = K\<close> or \<open>R\<close> starting with \<open>K\<close> followed by a slash, then findRequestHandler succeeds
  and returns the handler stored under the longest such key, and its result is that of
  the walk the spec describes: down from the greatest key not above \<open>R\<close>, accepting a key
  \<open>K\<close> when \<open>K\<close> is empty or (\<open>R\<close> starts with \<open>K\<close> and (\<open>R\<close> is as long as \<open>K\<close> or the character
  of \<open>R\<close> at position \<open>|K|\<close> is a slash)), and returning the first key accepted.
\<close>

theorem findRequestHandler_longest_match:
  assumes "ResourceMap_inv m" and "K \<in> fst ` set m" and "matches K R"
  shows "(\<exists>K' h. findRequestHandler m R = Some h \<and> map_of m K' = Some h \<and> matches K' R
            \<and> (\<forall>K''\<in>fst ` set m. matches K'' R \<longrightarrow> length K'' \<le> length K'))
         \<and> findRequestHandler m R = descending_first accept_as_stated m R"
  using findRequestHandler_longest[OF assms] findRequestHandler_descending[OF assms(1)]
    descending_first_as_stated[OF assms]
  by simp

theorem findRequestHandler_longest_match_witness:
  "ResourceMap_inv scenario_registry \<and> ''/a'' \<in> fst ` set scenario_registry
   \<and> matches ''/a'' ''/a/b/c''
   \<and> (\<exists>K' h. findRequestHandler scenario_registry ''/a/b/c'' = Some h
         \<and> map_of scenario_registry K' = Some h \<and> matches K' ''/a/b/c''
         \<and> (\<forall>K''\<in>fst ` set scenario_registry.
               matches K'' ''/a/b/c'' \<longrightarrow> length K'' \<le> length K'))
   \<and> findRequestHandler scenario_registry ''/a/b/c''
       = descending_first accept_as_stated scenario_registry ''/a/b/c''
   \<and> findRequestHandler scenario_registry ''/a/b/c'' = Some 2
   \<and> findRequestHandler scenario_registry ''/a/bb'' = Some 1"
proof -
  have h1: "ResourceMap_inv scenario_registry"
    by (simp add: ResourceMap_inv_def scenario_registry_def)
  have h2: "''/a'' \<in> fst ` set scenario_registry"
    by (simp add: scenario_registry_def)
  have h3: "matches ''/a'' ''/a/b/c''"
    by (simp add: matches_def)
  have v: "findRequestHandler scenario_registry ''/a/b/c'' = Some 2"
    "findRequestHandler scenario_registry ''/a/bb'' = Some 1"
    by (simp_all add: findRequestHandler_def scenario_registry_def compare0_def string_at_def)
  from findRequestHandler_longest_match[OF h1 h2 h3] h1 h2 h3 v show ?thesis
    by blast
qed

text \<open>
  C2 (amended). For every registry, key \<open>K\<close> and handlers \<open>h\<close>, \<open>h'\<close>: the map's insert does
  not replace an element, so after addResource(K, h) followed by addResource(K, h') the
  registry is what the first call left, and findRequestHandler, at the stored key (\<open>K\<close>
  without its trailing slash) and at \<open>K\<close> itself (unless \<open>K\<close> ends in a slash and is a key
  of the registry in its own right), returns the handler that was there first: the one
  the registry already held for the stored key, otherwise \<open>h\<close>; never \<open>h'\<close> in place of it.
  After removeResource(K), a second removeResource(K) leaves the registry as it is.
\<close>

theorem addResource_twice_removeResource_twice:
  assumes "ResourceMap_inv m"
  shows "findRequestHandler (addResource K h' (addResource K h m)) (stripTrailingSlash K)
           = Some (case map_of m (stripTrailingSlash K) of None \<Rightarrow> h | Some g \<Rightarrow> g)
         \<and> (K \<notin> fst ` set m \<or> stripTrailingSlash K = K
             \<longrightarrow> findRequestHandler (addResource K h' (addResource K h m)) K
                   = Some (case map_of m (stripTrailingSlash K) of None \<Rightarrow> h | Some g \<Rightarrow> g))
         \<and> addResource K h' (addResource K h m) = addResource K h m
         \<and> removeResource K (removeResource K m) = removeResource K m"
proof -
  let ?k = "stripTrailingSlash K"
  let ?g = "case map_of m ?k of None \<Rightarrow> h | Some g \<Rightarrow> g"
  have i1: "ResourceMap_inv (map_insert ?k h m)" using assms by (rule map_insert_inv)
  have same: "map_insert ?k h' (map_insert ?k h m) = map_insert ?k h m"
    using map_insert_key i1 by (rule map_insert_present)
  have mo: "map_of (map_insert ?k h m) ?k = Some ?g" using assms by (rule map_of_map_insert)
  have a: "findRequestHandler (map_insert ?k h m) ?k = Some ?g"
    using i1 mo by (rule findRequestHandler_key)
  have b: "findRequestHandler (map_insert ?k h m) K = Some ?g"
    if "K \<notin> fst ` set m \<or> ?k = K"
  proof -
    from that have "K \<notin> fst ` set (map_insert ?k h m) \<or> ?k = K"
      by (auto simp: map_insert_keys_eq)
    with i1 mo show ?thesis by (rule findRequestHandler_at_added)
  qed
  have c: "map_erase ?k (map_erase ?k m) = map_erase ?k m"
    using map_erase_key[OF assms] by (rule map_erase_absent)
  show ?thesis using a b c same by (simp add: addResource_def removeResource_def)
qed

theorem addResource_twice_removeResource_twice_witness:
  "ResourceMap_inv scenario_registry
   \<and> ''/c/'' \<notin> fst ` set scenario_registry
   \<and> findRequestHandler (addResource ''/c/'' 8 (addResource ''/c/'' 7 scenario_registry)) ''/c''
       = Some 7
   \<and> findRequestHandler (addResource ''/c/'' 8 (addResource ''/c/'' 7 scenario_registry)) ''/c/''
       = Some 7
   \<and> addResource ''/c/'' 8 (addResource ''/c/'' 7 scenario_registry)
       = addResource ''/c/'' 7 scenario_registry
   \<and> removeResource ''/a'' (removeResource ''/a'' scenario_registry)
       = removeResource ''/a'' scenario_registry
   \<and> removeResource ''/a'' scenario_registry = [([], 0), (''/a/b'', 2)]"
proof -
  have h1: "ResourceMap_inv scenario_registry"
    by (simp add: ResourceMap_inv_def scenario_registry_def)
  have h2: "''/c/'' \<notin> fst ` set scenario_registry"
    by (simp add: scenario_registry_def)
  have s: "stripTrailingSlash ''/c/'' = ''/c''" "map_of scenario_registry ''/c'' = None"
    "removeResource ''/a'' scenario_registry = [([], 0), (''/a/b'', 2)]"
    by (simp_all add: stripTrailingSlash_def scenario_registry_def removeResource_def)
  note c = addResource_twice_removeResource_twice[OF h1, of "''/c/''" 8 7]
  note a = addResource_twice_removeResource_twice[OF h1, of "''/a''" 8 7]
  have "findRequestHandler (addResource ''/c/'' 8 (addResource ''/c/'' 7 scenario_registry)) ''/c''
          = Some 7"
    using c[THEN conjunct1] s(1,2) by simp
  moreover have "findRequestHandler (addResource ''/c/'' 8 (addResource ''/c/'' 7 scenario_registry))
          ''/c/'' = Some 7"
    using c[THEN conjunct2, THEN conjunct1] h2 s(1,2) by simp
  moreover have "addResource ''/c/'' 8 (addResource ''/c/'' 7 scenario_registry)
          = addResource ''/c/'' 7 scenario_registry"
    using c[THEN conjunct2, THEN conjunct2, THEN conjunct1] .
  moreover have "removeResource ''/a'' (removeResource ''/a'' scenario_registry)
          = removeResource ''/a'' scenario_registry"
    using a[THEN conjunct2, THEN conjunct2, THEN conjunct2] .
  ultimately show ?thesis using h1 h2 s(3) by blast
qed

text \<open>
  C2 as stated fails on its first half: on the empty registry, after adding handler 1
  and then handler 2 for \<^verbatim>\<open>/a\<close>, the look-up returns handler 1, not handler 2.
\<close>

theorem addResource_overwrite_counterexample:
  "findRequestHandler (addResource ''/a'' 2 (addResource ''/a'' (1::nat) [])) ''/a'' = Some 1
   \<and> findRequestHandler (addResource ''/a'' 2 (addResource ''/a'' (1::nat) [])) ''/a'' \<noteq> Some 2"
  by (simp add: findRequestHandler_def addResource_def stripTrailingSlash_def compare0_def)

text \<open>
  C6 (amended). For every registry that holds the empty key and every resource \<open>R\<close> that
  is empty or starts with a slash, findRequestHandler succeeds, and when no other key
  matches \<open>R\<close> it returns the handler of the empty key: the empty key is the last resort
  for those resources.
\<close>

theorem empty_key_catch_all:
  assumes "ResourceMap_inv m" and "[] \<in> fst ` set m" and "R = [] \<or> prefix ''/'' R"
  shows "(\<exists>h. findRequestHandler m R = Some h)
         \<and> ((\<forall>K\<in>fst ` set m. K \<noteq> [] \<longrightarrow> \<not> matches K R)
              \<longrightarrow> findRequestHandler m R = map_of m [])"
proof -
  have "matches [] R" using assms(3) by (auto simp: matches_def)
  from findRequestHandler_longest[OF assms(1,2) this] obtain K' h where
    r: "findRequestHandler m R = Some h" "map_of m K' = Some h" "matches K' R" by blast
  have "(K', h) \<in> set m" using r(2) by (rule map_of_SomeD)
  then have "K' \<in> fst ` set m" by force
  then have "K' = []" if "\<forall>K\<in>fst ` set m. K \<noteq> [] \<longrightarrow> \<not> matches K R"
    using that r(3) by blast
  with r show ?thesis by auto
qed

theorem empty_key_catch_all_witness:
  "ResourceMap_inv scenario_registry \<and> [] \<in> fst ` set scenario_registry
   \<and> (''/zzz'' = [] \<or> prefix ''/'' ''/zzz'')
   \<and> fst ` set scenario_registry = {[], ''/a'', ''/a/b''}
   \<and> \<not> matches ''/a'' ''/zzz'' \<and> \<not> matches ''/a/b'' ''/zzz''
   \<and> findRequestHandler scenario_registry ''/zzz'' = Some 0"
proof -
  have h1: "ResourceMap_inv scenario_registry"
    by (simp add: ResourceMap_inv_def scenario_registry_def)
  have h2: "[] \<in> fst ` set scenario_registry"
    by (simp add: scenario_registry_def)
  have h3: "''/zzz'' = [] \<or> prefix ''/'' ''/zzz''"
    by simp
  have h4: "\<forall>K\<in>fst ` set scenario_registry. K \<noteq> [] \<longrightarrow> \<not> matches K ''/zzz''"
    by (simp add: scenario_registry_def matches_def)
  have h5: "fst ` set scenario_registry = {[], ''/a'', ''/a/b''}"
    "\<not> matches ''/a'' ''/zzz''" "\<not> matches ''/a/b'' ''/zzz''"
    by (simp_all add: scenario_registry_def matches_def)
  have "map_of scenario_registry [] = Some 0"
    by (simp add: scenario_registry_def)
  with empty_key_catch_all[OF h1 h2 h3] h1 h2 h3 h4 h5 show ?thesis
    by simp
qed

text \<open>
  C6 as stated fails for a resource that does not start with a slash: in a registry with
  the empty key, the resource \<^verbatim>\<open>*\<close> (the request line of \<^verbatim>\<open>OPTIONS *\<close>) finds nothing.
\<close>

theorem empty_key_counterexample:
  "ResourceMap_inv [([], 0::nat), (''/a'', 1)]
   \<and> [] \<in> fst ` set [([], 0::nat), (''/a'', 1)]
   \<and> findRequestHandler [([], 0::nat), (''/a'', 1)] ''*'' = None"
  by (simp add: ResourceMap_inv_def findRequestHandler_def compare0_def string_at_def)


section \<open>The claims about handleRequest\<close>

text \<open>
  C3 (amended). For every redirect table in which resolution from the stripped resource
  of a valid request read without error does not reach a resource the table lacks
  within MAX_REDIRECTS = 10 rewrites (the two-entry cycle of \<open>xy_cycle\<close>, say),
  handleRequest performs exactly 10 rewrites and then calls the server-error responder,
  and no authenticator or handler; with the default responder the response has status
  500 and its body contains the message of the source,
  ``Maximum number of redirects (HTTPServer::MAX_REDIRECTS) exceeded for requested
  resource''.
\<close>

theorem redirect_bound_exceeded:
  assumes "ec_value ec = 0" and "isValid req"
    and "\<not> resolves_within (m_redirects srv) MAX_REDIRECTS (stripTrailingSlash (getResource req))"
    and "m_server_error_handler srv = handleServerError"
  shows "\<exists>rs r'. length rs = MAX_REDIRECTS \<and> MAX_REDIRECTS = 10
      \<and> handleRequest srv req conn ec =
          \<lparr>o_thrown = None, o_request = req\<lparr>m_resource := r'\<rparr>,
           o_conn = finish (conn\<lparr>m_written := m_written conn @
             [\<lparr>m_status_code = 500, m_status_message = ''Server Error'',
               m_content = SERVER_ERROR_HTML_START @ MAX_REDIRECTS_MESSAGE
                             @ SERVER_ERROR_HTML_FINISH\<rparr>]\<rparr>),
           o_calls = map changeResource_call rs
                     @ [server_error_handler_call (req\<lparr>m_resource := r'\<rparr>)
                          MAX_REDIRECTS_MESSAGE]\<rparr>
      \<and> sublist MAX_REDIRECTS_MESSAGE
           (SERVER_ERROR_HTML_START @ MAX_REDIRECTS_MESSAGE @ SERVER_ERROR_HTML_FINISH)"
proof -
  let ?t = "m_redirects srv" and ?r = "stripTrailingSlash (getResource req)"
  from handleRequest_exceeded[OF assms, of conn] obtain r' where
    r': "follow ?t MAX_REDIRECTS ?r = Some r'" and
    eq: "handleRequest srv req conn ec =
          \<lparr>o_thrown = None, o_request = req\<lparr>m_resource := r'\<rparr>,
           o_conn = finish (conn\<lparr>m_written := m_written conn @
             [\<lparr>m_status_code = 500, m_status_message = ''Server Error'',
               m_content = SERVER_ERROR_HTML_START @ MAX_REDIRECTS_MESSAGE
                             @ SERVER_ERROR_HTML_FINISH\<rparr>]\<rparr>),
           o_calls = map changeResource_call (targets ?t MAX_REDIRECTS ?r)
                     @ [server_error_handler_call (req\<lparr>m_resource := r'\<rparr>)
                          MAX_REDIRECTS_MESSAGE]\<rparr>" by blast
  have len: "length (targets ?t MAX_REDIRECTS ?r) = MAX_REDIRECTS"
    using r' by (intro length_targets) simp
  have sub: "sublist MAX_REDIRECTS_MESSAGE
           (SERVER_ERROR_HTML_START @ MAX_REDIRECTS_MESSAGE @ SERVER_ERROR_HTML_FINISH)"
    unfolding sublist_def by blast
  show ?thesis
    apply (rule exI[of _ "targets ?t MAX_REDIRECTS ?r"], rule exI[of _ r'])
    using len eq sub by (simp add: MAX_REDIRECTS_def)
qed

theorem redirect_bound_exceeded_witness:
  "ec_value success = 0 \<and> isValid (request_for ''/x'')
   \<and> \<not> resolves_within (m_redirects (default_server [] xy_cycle)) MAX_REDIRECTS
         (stripTrailingSlash (getResource (request_for ''/x'')))
   \<and> m_server_error_handler (default_server [] xy_cycle) = handleServerError
   \<and> o_thrown (handleRequest (default_server [] xy_cycle) (request_for ''/x'') open_connection
        success) = None
   \<and> length (o_calls (handleRequest (default_server [] xy_cycle) (request_for ''/x'')
        open_connection success)) = 11
   \<and> length (filter is_changeResource_call (o_calls (handleRequest (default_server [] xy_cycle)
        (request_for ''/x'') open_connection success))) = 10
   \<and> m_status_code (last (m_written (o_conn (handleRequest (default_server [] xy_cycle)
        (request_for ''/x'') open_connection success)))) = 500
   \<and> sublist MAX_REDIRECTS_MESSAGE (m_content (last (m_written (o_conn (handleRequest
        (default_server [] xy_cycle) (request_for ''/x'') open_connection success)))))"
proof -
  let ?srv = "default_server [] xy_cycle"
  have h: "ec_value success = 0" "isValid (request_for ''/x'')"
    "\<not> resolves_within (m_redirects ?srv) MAX_REDIRECTS
         (stripTrailingSlash (getResource (request_for ''/x'')))"
    "m_server_error_handler ?srv = handleServerError"
    using xy_unresolved
    by (simp_all add: success_def request_for_def isValid_def default_server_def getResource_def
        stripTrailingSlash_def)
  have cr: "filter is_changeResource_call (map changeResource_call ys) = map changeResource_call ys"
    for ys by (induction ys) auto
  from redirect_bound_exceeded[OF h, of open_connection] obtain rs r' where
    "length rs = MAX_REDIRECTS" "MAX_REDIRECTS = 10"
    "handleRequest ?srv (request_for ''/x'') open_connection success =
          \<lparr>o_thrown = None, o_request = (request_for ''/x'')\<lparr>m_resource := r'\<rparr>,
           o_conn = finish (open_connection\<lparr>m_written := m_written open_connection @
             [\<lparr>m_status_code = 500, m_status_message = ''Server Error'',
               m_content = SERVER_ERROR_HTML_START @ MAX_REDIRECTS_MESSAGE
                             @ SERVER_ERROR_HTML_FINISH\<rparr>]\<rparr>),
           o_calls = map changeResource_call rs
                     @ [server_error_handler_call ((request_for ''/x'')\<lparr>m_resource := r'\<rparr>)
                          MAX_REDIRECTS_MESSAGE]\<rparr>"
    "sublist MAX_REDIRECTS_MESSAGE
           (SERVER_ERROR_HTML_START @ MAX_REDIRECTS_MESSAGE @ SERVER_ERROR_HTML_FINISH)"
    by blast
  then show ?thesis using h by (simp add: written_finish cr)
qed

text \<open>
  C3 as stated fails on the text of the body: on the cycle \<^verbatim>\<open>/x\<close> to \<^verbatim>\<open>/y\<close> to \<^verbatim>\<open>/x\<close> the
  body of the 500 response does not contain the string
  ``Maximum number of redirects exceeded''.
\<close>

theorem redirect_message_counterexample:
  "\<not> sublist ''Maximum number of redirects exceeded''
       (m_content (last (m_written (o_conn
          (handleRequest (default_server [] xy_cycle) (request_for ''/x'') open_connection success)))))"
proof -
  have "\<not> resolves_within (m_redirects (default_server [] xy_cycle)) MAX_REDIRECTS
           (stripTrailingSlash (getResource (request_for ''/x'')))"
    using xy_unresolved
    by (simp add: default_server_def request_for_def getResource_def stripTrailingSlash_def)
  from handleRequest_exceeded[OF _ _ this, of success open_connection]
  have "m_content (last (m_written (o_conn
          (handleRequest (default_server [] xy_cycle) (request_for ''/x'') open_connection success))))
        = SERVER_ERROR_HTML_START @ MAX_REDIRECTS_MESSAGE @ SERVER_ERROR_HTML_FINISH"
    by (auto simp: success_def request_for_def isValid_def default_server_def written_finish)
  then show ?thesis
    by (simp add: SERVER_ERROR_HTML_START_def MAX_REDIRECTS_MESSAGE_def
        SERVER_ERROR_HTML_FINISH_def sublist_code)
qed

text \<open>
  C4. For every call of handleRequest with a non-zero error code or an invalid request:
  the lifecycle of the connection is set to CLOSE; if the connection is open and the
  category of the error is the parser's, the bad-request responder is called (by
  default it writes a 400 response and finishes the connection), and otherwise
  \<^verbatim>\<open>finish\<close> is called on the connection and nothing is written; in both cases these are
  the only calls made: no redirect is resolved, no authenticator and no handler is
  looked for.
\<close>

theorem error_gate:
  assumes "ec_value ec \<noteq> 0 \<or> \<not> isValid req"
  shows "handleRequest srv req conn ec =
           (if is_open conn \<and> ec_category ec = parser_error_category then
              returned [set_lifecycle_call LIFECYCLE_CLOSE, bad_request_handler_call req]
                (m_bad_request_handler srv req (set_lifecycle LIFECYCLE_CLOSE conn))
            else
              \<lparr>o_thrown = None, o_request = req,
               o_conn = finish (set_lifecycle LIFECYCLE_CLOSE conn),
               o_calls = [set_lifecycle_call LIFECYCLE_CLOSE, finish_call]\<rparr>)
         \<and> m_lifecycle (set_lifecycle LIFECYCLE_CLOSE conn) = LIFECYCLE_CLOSE
         \<and> m_written (finish (set_lifecycle LIFECYCLE_CLOSE conn)) = m_written conn
         \<and> m_finish_calls (finish (set_lifecycle LIFECYCLE_CLOSE conn)) = Suc (m_finish_calls conn)
         \<and> handleBadRequest req (set_lifecycle LIFECYCLE_CLOSE conn) =
             (None, req,
              finish (conn\<lparr>m_lifecycle := LIFECYCLE_CLOSE,
                           m_written := m_written conn @
                             [\<lparr>m_status_code = 400, m_status_message = ''Bad Request'',
                               m_content = BAD_REQUEST_HTML\<rparr>]\<rparr>))"
  using assms
  by (simp add: handleRequest_error handleBadRequest_eq set_lifecycle_def finish_def is_open_def)

theorem error_gate_witness:
  "ec_value parse_error = 1 \<and> ec_value io_error = 104
   \<and> handleRequest (default_server [] Map.empty) (request_for ''/x'') open_connection parse_error =
       \<lparr>o_thrown = None, o_request = request_for ''/x'',
        o_conn = \<lparr>m_lifecycle = LIFECYCLE_CLOSE, m_is_open = False,
                  m_written = [\<lparr>m_status_code = 400, m_status_message = ''Bad Request'',
                                 m_content = BAD_REQUEST_HTML\<rparr>],
                  m_finish_calls = 1\<rparr>,
        o_calls = [set_lifecycle_call LIFECYCLE_CLOSE,
                   bad_request_handler_call (request_for ''/x'')]\<rparr>
   \<and> handleRequest (default_server [] Map.empty) (request_for ''/x'') open_connection io_error =
       \<lparr>o_thrown = None, o_request = request_for ''/x'',
        o_conn = \<lparr>m_lifecycle = LIFECYCLE_CLOSE, m_is_open = False, m_written = [],
                  m_finish_calls = 1\<rparr>,
        o_calls = [set_lifecycle_call LIFECYCLE_CLOSE, finish_call]\<rparr>"
proof -
  have p: "ec_value parse_error \<noteq> 0 \<or> \<not> isValid (request_for ''/x'')"
    and i: "ec_value io_error \<noteq> 0 \<or> \<not> isValid (request_for ''/x'')"
    by (simp_all add: parse_error_def io_error_def)
  from error_gate[OF p, of "default_server [] Map.empty" open_connection]
       error_gate[OF i, of "default_server [] Map.empty" open_connection]
  show ?thesis
    by (simp add: parse_error_def io_error_def default_server_def open_connection_def
        returned_def is_open_def set_lifecycle_def finish_def)
qed

text \<open>
  C5 (amended). For every call of a handler inside handleRequest, and a handler is
  called whenever a valid request read without error, its redirects resolved and the
  authentication gate passed, finds one in the registry: if the handler throws
  \<^verbatim>\<open>std::bad_alloc\<close>, the exception leaves handleRequest and nothing is called after the
  handler; if it throws another exception derived from \<^verbatim>\<open>std::exception\<close>, the
  server-error responder is called with the diagnostic information of the exception,
  and with the default responder handleRequest returns normally after writing a 500
  response whose body contains that diagnostic text, and so the \<^verbatim>\<open>what()\<close> of the
  exception; if it throws anything that is not derived from \<^verbatim>\<open>std::exception\<close>, that is
  not caught either: it leaves handleRequest as the allocation failure does, and nothing
  is called after the handler.
\<close>

theorem handler_exception_envelope:
  "(request_handler_call rq (Some bad_alloc) \<in> set (o_calls (handleRequest srv req conn ec))
      \<longrightarrow> o_thrown (handleRequest srv req conn ec) = Some bad_alloc
          \<and> last (o_calls (handleRequest srv req conn ec)) = request_handler_call rq (Some bad_alloc))
   \<and> (request_handler_call rq (Some (std_exception ty w))
         \<in> set (o_calls (handleRequest srv req conn ec))
      \<longrightarrow> (\<exists>rq'. last (o_calls (handleRequest srv req conn ec))
                   = server_error_handler_call rq' (diagnostic_information (std_exception ty w)))
          \<and> (m_server_error_handler srv = handleServerError
              \<longrightarrow> o_thrown (handleRequest srv req conn ec) = None
                 \<and> (\<exists>ws. m_written (o_conn (handleRequest srv req conn ec)) = ws @
                      [\<lparr>m_status_code = 500, m_status_message = ''Server Error'',
                        m_content = SERVER_ERROR_HTML_START
                          @ diagnostic_information (std_exception ty w)
                          @ SERVER_ERROR_HTML_FINISH\<rparr>])
                 \<and> sublist (diagnostic_information (std_exception ty w))
                      (SERVER_ERROR_HTML_START @ diagnostic_information (std_exception ty w)
                         @ SERVER_ERROR_HTML_FINISH)
                 \<and> sublist w
                      (SERVER_ERROR_HTML_START @ diagnostic_information (std_exception ty w)
                         @ SERVER_ERROR_HTML_FINISH)))
   \<and> (request_handler_call rq (Some non_std_exception)
         \<in> set (o_calls (handleRequest srv req conn ec))
      \<longrightarrow> o_thrown (handleRequest srv req conn ec) = Some non_std_exception
          \<and> last (o_calls (handleRequest srv req conn ec))
              = request_handler_call rq (Some non_std_exception))
   \<and> (ec_value ec = 0 \<and> isValid req
        \<and> follow (m_redirects srv) n (stripTrailingSlash (getResource req)) = Some r'
        \<and> m_redirects srv r' = None \<and> n \<le> MAX_REDIRECTS
        \<and> auth_gate srv (if n = 0 then req else req\<lparr>m_resource := r'\<rparr>) conn = (True, conn_a)
        \<and> findRequestHandler (m_resources srv) r' = Some h
      \<longrightarrow> request_handler_call (if n = 0 then req else req\<lparr>m_resource := r'\<rparr>)
            (fst (h (if n = 0 then req else req\<lparr>m_resource := r'\<rparr>) conn_a))
          \<in> set (o_calls (handleRequest srv req conn ec)))"
proof -
  let ?out = "handleRequest srv req conn ec"
  have env: "\<exists>h cn pre. ?out = try_request_handler srv h rq cn pre \<and> fst (h rq cn) = t"
    if m: "request_handler_call rq t \<in> set (o_calls ?out)" for t
  proof (cases rule: handleRequest_cases[of ec req srv conn])
    case error
    with m show ?thesis by auto
  next
    case (exceeded xs rq')
    with m show ?thesis by (auto simp: returned_def)
  next
    case (dispatch xs)
    have "request_handler_call rq t \<notin> set (map changeResource_call xs)" by auto
    from handler_call_outcome[OF m[unfolded dispatch(5)] this] show ?thesis
      unfolding dispatch(5) by blast
  qed
  have a: "o_thrown ?out = Some bad_alloc
          \<and> last (o_calls ?out) = request_handler_call rq (Some bad_alloc)"
    if "request_handler_call rq (Some bad_alloc) \<in> set (o_calls ?out)"
  proof -
    from env[OF that] obtain h cn pre where
      "?out = try_request_handler srv h rq cn pre" "fst (h rq cn) = Some bad_alloc" by blast
    then show ?thesis by (simp add: try_request_handler_bad_alloc)
  qed
  have b: "(\<exists>rq'. last (o_calls ?out)
                   = server_error_handler_call rq' (diagnostic_information (std_exception ty w)))
          \<and> (m_server_error_handler srv = handleServerError
              \<longrightarrow> o_thrown ?out = None
                 \<and> (\<exists>ws. m_written (o_conn ?out) = ws @
                      [\<lparr>m_status_code = 500, m_status_message = ''Server Error'',
                        m_content = SERVER_ERROR_HTML_START
                          @ diagnostic_information (std_exception ty w)
                          @ SERVER_ERROR_HTML_FINISH\<rparr>]))"
    if "request_handler_call rq (Some (std_exception ty w)) \<in> set (o_calls ?out)"
  proof -
    from env[OF that] obtain h cn pre where
      "?out = try_request_handler srv h rq cn pre" "fst (h rq cn) = Some (std_exception ty w)"
      by blast
    then show ?thesis
      by (simp add: try_request_handler_std_exception returned_def handleServerError_eq
          written_finish del: diagnostic_information.simps)
  qed
  have c: "o_thrown ?out = Some non_std_exception
          \<and> last (o_calls ?out) = request_handler_call rq (Some non_std_exception)"
    if "request_handler_call rq (Some non_std_exception) \<in> set (o_calls ?out)"
  proof -
    from env[OF that] obtain h cn pre where
      "?out = try_request_handler srv h rq cn pre" "fst (h rq cn) = Some non_std_exception"
      by blast
    then show ?thesis by (simp add: try_request_handler_non_std)
  qed
  have d: "request_handler_call (if n = 0 then req else req\<lparr>m_resource := r'\<rparr>)
            (fst (h (if n = 0 then req else req\<lparr>m_resource := r'\<rparr>) conn_a))
          \<in> set (o_calls ?out)"
    if "ec_value ec = 0 \<and> isValid req
        \<and> follow (m_redirects srv) n (stripTrailingSlash (getResource req)) = Some r'
        \<and> m_redirects srv r' = None \<and> n \<le> MAX_REDIRECTS
        \<and> auth_gate srv (if n = 0 then req else req\<lparr>m_resource := r'\<rparr>) conn = (True, conn_a)
        \<and> findRequestHandler (m_resources srv) r' = Some h"
    using that by (intro lookup_invokes_handler) simp_all
  show ?thesis using a b c d sublist_what[of w ty] sublist_middle by blast
qed

theorem handler_exception_envelope_witness:
  "ec_value success = 0 \<and> isValid (request_for ''/boom'')
   \<and> findRequestHandler [(''/boom'', throwing_handler bad_alloc)] ''/boom''
       = Some (throwing_handler bad_alloc)
   \<and> request_handler_call (request_for ''/boom'') (Some bad_alloc)
     \<in> set (o_calls (handleRequest (default_server [(''/boom'', throwing_handler bad_alloc)] Map.empty)
              (request_for ''/boom'') open_connection success))
   \<and> o_thrown (handleRequest (default_server [(''/boom'', throwing_handler bad_alloc)] Map.empty)
              (request_for ''/boom'') open_connection success) = Some bad_alloc
   \<and> request_handler_call (request_for ''/boom'')
        (Some (std_exception ''std::runtime_error'' ''kaboom''))
     \<in> set (o_calls (handleRequest
          (default_server
             [(''/boom'', throwing_handler (std_exception ''std::runtime_error'' ''kaboom''))]
             Map.empty)
          (request_for ''/boom'') open_connection success))
   \<and> o_thrown (handleRequest
          (default_server
             [(''/boom'', throwing_handler (std_exception ''std::runtime_error'' ''kaboom''))]
             Map.empty)
          (request_for ''/boom'') open_connection success) = None
   \<and> m_status_code (last (m_written (o_conn (handleRequest
          (default_server
             [(''/boom'', throwing_handler (std_exception ''std::runtime_error'' ''kaboom''))]
             Map.empty)
          (request_for ''/boom'') open_connection success)))) = 500
   \<and> sublist ''kaboom'' (m_content (last (m_written (o_conn (handleRequest
          (default_server
             [(''/boom'', throwing_handler (std_exception ''std::runtime_error'' ''kaboom''))]
             Map.empty)
          (request_for ''/boom'') open_connection success)))))
   \<and> request_handler_call (request_for ''/boom'') (Some non_std_exception)
     \<in> set (o_calls (handleRequest
          (default_server [(''/boom'', throwing_handler non_std_exception)] Map.empty)
          (request_for ''/boom'') open_connection success))
   \<and> o_thrown (handleRequest
          (default_server [(''/boom'', throwing_handler non_std_exception)] Map.empty)
          (request_for ''/boom'') open_connection success) = Some non_std_exception"
proof -
  let ?rq = "request_for ''/boom''"
  let ?e = "std_exception ''std::runtime_error'' ''kaboom''"
  let ?srv = "\<lambda>e. default_server [(''/boom'', throwing_handler e)] Map.empty"
  let ?out = "\<lambda>e. handleRequest (?srv e) ?rq open_connection success"
  have h: "ec_value success = 0" "isValid ?rq"
    by (simp_all add: success_def request_for_def isValid_def)
  have f: "findRequestHandler [(''/boom'', throwing_handler e)] ''/boom''
       = Some (throwing_handler e)" for e
    by (simp add: findRequestHandler_def compare0_def)
  have p: "ec_value success = 0 \<and> isValid ?rq
        \<and> follow (m_redirects (?srv e)) 0 (stripTrailingSlash (getResource ?rq)) = Some ''/boom''
        \<and> m_redirects (?srv e) ''/boom'' = None \<and> 0 \<le> MAX_REDIRECTS
        \<and> auth_gate (?srv e) (if (0::nat) = 0 then ?rq else ?rq\<lparr>m_resource := ''/boom''\<rparr>)
             open_connection = (True, open_connection)
        \<and> findRequestHandler (m_resources (?srv e)) ''/boom'' = Some (throwing_handler e)" for e
    using h f
    by (simp add: default_server_def auth_gate_def getResource_def request_for_def
        stripTrailingSlash_def)
  have mem: "request_handler_call ?rq (Some e) \<in> set (o_calls (?out e))" for e
    using handler_exception_envelope[where srv="?srv e" and req="?rq" and conn=open_connection and ec=success
        and n=0 and r'="''/boom''" and conn_a=open_connection and h="throwing_handler e",
        THEN conjunct2, THEN conjunct2, THEN conjunct2, rule_format, OF p]
    by (simp add: throwing_handler_def)
  have d: "m_server_error_handler (?srv ?e) = handleServerError"
    by (simp add: default_server_def)
  note oom = handler_exception_envelope[where rq="?rq" and srv="?srv bad_alloc" and req="?rq"
      and conn=open_connection and ec=success, THEN conjunct1, rule_format, OF mem]
  note exn = handler_exception_envelope[where rq="?rq" and srv="?srv ?e" and req="?rq" and conn=open_connection
      and ec=success and ty="''std::runtime_error''" and w="''kaboom''",
      THEN conjunct2, THEN conjunct1, rule_format, OF mem, THEN conjunct2, rule_format, OF d]
  note oth = handler_exception_envelope[where rq="?rq" and srv="?srv non_std_exception" and req="?rq"
      and conn=open_connection and ec=success,
      THEN conjunct2, THEN conjunct2, THEN conjunct1, rule_format, OF mem]
  from exn obtain ws where ws: "m_written (o_conn (?out ?e)) = ws @
      [\<lparr>m_status_code = 500, m_status_message = ''Server Error'',
        m_content = SERVER_ERROR_HTML_START @ diagnostic_information ?e
                      @ SERVER_ERROR_HTML_FINISH\<rparr>]" by blast
  have "sublist ''kaboom'' (m_content (last (m_written (o_conn (?out ?e)))))"
    using exn ws by (simp del: diagnostic_information.simps)
  moreover have "m_status_code (last (m_written (o_conn (?out ?e)))) = 500"
    using ws by simp
  ultimately show ?thesis using h f mem oom exn oth by blast
qed

text \<open>
  C5 as stated fails for a failure that is not derived from \<^verbatim>\<open>std::exception\<close>: a
  handler that throws such a value is not recovered from. The exception leaves
  handleRequest, the server-error responder is not called and no response is written.
\<close>

theorem non_std_exception_counterexample:
  "o_thrown (handleRequest (default_server [(''/throw'', throwing_handler non_std_exception)] Map.empty)
      (request_for ''/throw'') open_connection success) = Some non_std_exception
   \<and> m_written (o_conn (handleRequest
        (default_server [(''/throw'', throwing_handler non_std_exception)] Map.empty)
        (request_for ''/throw'') open_connection success)) = []
   \<and> o_calls (handleRequest (default_server [(''/throw'', throwing_handler non_std_exception)] Map.empty)
        (request_for ''/throw'') open_connection success)
       = [findRequestHandler_call ''/throw'' True,
          request_handler_call (request_for ''/throw'') (Some non_std_exception)]"
proof -
  have "handleRequest (default_server [(''/throw'', throwing_handler non_std_exception)] Map.empty)
      (request_for ''/throw'') open_connection success
    = \<lparr>o_thrown = Some non_std_exception, o_request = request_for ''/throw'',
       o_conn = open_connection,
       o_calls = [findRequestHandler_call ''/throw'' True,
                  request_handler_call (request_for ''/throw'') (Some non_std_exception)]\<rparr>"
    by (simp add: run_throw try_request_handler_def throwing_handler_def)
  then show ?thesis by (simp add: open_connection_def)
qed

text \<open>
  C7 (amended). Step 2 of handleRequest strips the trailing slash from a local copy of
  the resource, \<^verbatim>\<open>resource_requested\<close>, which is what the redirect table and the registry
  are searched with; the resource field of the request itself is not normalised. When
  no redirect entry applies to a valid request read without error, the authenticator,
  the handler and the not-found responder are given the message as it came in, with the
  resource as the client sent it, and the registry is searched with the stripped
  copy.
\<close>

theorem resource_not_normalised:
  assumes "ec_value ec = 0" and "isValid req"
    and "m_redirects srv (stripTrailingSlash (getResource req)) = None"
  shows "handleRequest srv req conn ec
           = authenticate_and_dispatch srv (stripTrailingSlash (getResource req)) req conn []
         \<and> list_all (dispatched_with (stripTrailingSlash (getResource req)) req)
             (o_calls (handleRequest srv req conn ec))"
proof -
  have eq: "handleRequest srv req conn ec
           = authenticate_and_dispatch srv (stripTrailingSlash (getResource req)) req conn []"
    using assms(3) by (simp add: handleRequest_valid[OF assms(1,2)] apply_redirects_None)
  from authenticate_and_dispatch_calls[of srv "stripTrailingSlash (getResource req)" req conn "[]"]
  show ?thesis unfolding eq by auto
qed

theorem resource_not_normalised_witness:
  "ec_value success = 0 \<and> isValid (request_for ''/a/'')
   \<and> m_redirects (default_server [] Map.empty) (stripTrailingSlash (getResource (request_for ''/a/'')))
       = None
   \<and> o_calls (handleRequest (default_server [] Map.empty) (request_for ''/a/'') open_connection success)
       = [findRequestHandler_call ''/a'' False, not_found_handler_call (request_for ''/a/'')]
   \<and> list_all (dispatched_with ''/a'' (request_for ''/a/''))
       (o_calls (handleRequest (default_server [] Map.empty) (request_for ''/a/'') open_connection success))"
proof -
  have h: "ec_value success = 0" "isValid (request_for ''/a/'')"
    "m_redirects (default_server [] Map.empty) (stripTrailingSlash (getResource (request_for ''/a/'')))
       = None"
    by (simp_all add: success_def request_for_def isValid_def default_server_def)
  have s: "stripTrailingSlash (getResource (request_for ''/a/'')) = ''/a''"
    by (simp add: request_for_def getResource_def stripTrailingSlash_def)
  have c: "o_calls (handleRequest (default_server [] Map.empty) (request_for ''/a/'') open_connection success)
       = [findRequestHandler_call ''/a'' False, not_found_handler_call (request_for ''/a/'')]"
    by (simp add: run_not_found stripTrailingSlash_def)
  from resource_not_normalised[OF h, of open_connection, THEN conjunct2] h c s show ?thesis by simp
qed

text \<open>
  C7 as stated fails: for the resource \<^verbatim>\<open>/docs/\<close>, with no redirect, the resource on the
  message after dispatch is still \<^verbatim>\<open>/docs/\<close>, not the stripped \<^verbatim>\<open>/docs\<close>.
\<close>

theorem request_resource_counterexample:
  "getResource (o_request (handleRequest (default_server [] Map.empty) (request_for ''/docs/'')
      open_connection success)) = ''/docs/''
   \<and> stripTrailingSlash ''/docs/'' = ''/docs''
   \<and> getResource (o_request (handleRequest (default_server [] Map.empty) (request_for ''/docs/'')
      open_connection success)) \<noteq> stripTrailingSlash (getResource (request_for ''/docs/''))"
proof -
  have "o_request (handleRequest (default_server [] Map.empty) (request_for ''/docs/'')
      open_connection success) = request_for ''/docs/''"
    by (simp add: run_not_found)
  then show ?thesis
    by (simp add: request_for_def getResource_def stripTrailingSlash_def)
qed

text \<open>
  C8. For every valid request read without error and every redirect chain of length
  \<open>n\<close> at most MAX_REDIRECTS that starts at the stripped resource, the redirection loop
  ends without taking the bound-exceeded branch, after \<open>n\<close> calls of changeResource, one
  for each step of the chain; of the message only the resource field is rewritten (to
  the end of the chain), its original resource stays what it was, whatever the table
  and wherever the loop starts, and dispatch goes on with that message, so that the
  request a handler is called with has the original resource of the request that
  came in.
\<close>

theorem redirect_chain_resolves:
  assumes "ec_value ec = 0" and "isValid req"
    and "chain_of_length (m_redirects srv) n (stripTrailingSlash (getResource req))"
    and "n \<le> MAX_REDIRECTS"
  shows "\<exists>r'. follow (m_redirects srv) n (stripTrailingSlash (getResource req)) = Some r'
      \<and> apply_redirects (m_redirects srv)
            (m_redirects srv (stripTrailingSlash (getResource req))) 0
            (stripTrailingSlash (getResource req)) req []
          = \<lparr>r_exceeded = False, r_num_redirects = n, r_resource_requested = r',
             r_http_request = (if n = 0 then req else req\<lparr>m_resource := r'\<rparr>),
             r_calls = map changeResource_call
                         (targets (m_redirects srv) n (stripTrailingSlash (getResource req)))\<rparr>
      \<and> length (targets (m_redirects srv) n (stripTrailingSlash (getResource req))) = n
      \<and> (\<forall>it k r c. getOriginalResource (r_http_request
              (apply_redirects (m_redirects srv) it k r req c)) = getOriginalResource req)
      \<and> handleRequest srv req conn ec
          = authenticate_and_dispatch srv r' (if n = 0 then req else req\<lparr>m_resource := r'\<rparr>) conn
              (map changeResource_call
                 (targets (m_redirects srv) n (stripTrailingSlash (getResource req))))
      \<and> (\<exists>post. o_calls (handleRequest srv req conn ec)
             = map changeResource_call
                 (targets (m_redirects srv) n (stripTrailingSlash (getResource req))) @ post
           \<and> list_all (dispatched_with r' (if n = 0 then req else req\<lparr>m_resource := r'\<rparr>)) post)
      \<and> (\<forall>rq x. request_handler_call rq x \<in> set (o_calls (handleRequest srv req conn ec))
            \<longrightarrow> getOriginalResource rq = getOriginalResource req)"
proof -
  let ?t = "m_redirects srv" and ?r = "stripTrailingSlash (getResource req)"
  from assms(3) obtain r' where r': "follow ?t n ?r = Some r'" "?t r' = None"
    by (auto simp: chain_of_length_def split: option.splits)
  let ?rq = "if n = 0 then req else req\<lparr>m_resource := r'\<rparr>"
  have loop: "apply_redirects ?t (?t ?r) 0 ?r req []
          = \<lparr>r_exceeded = False, r_num_redirects = n, r_resource_requested = r',
             r_http_request = ?rq, r_calls = map changeResource_call (targets ?t n ?r)\<rparr>"
    using apply_redirects_chain[OF r', of 0 req "[]"] assms(4) by simp
  have len: "length (targets ?t n ?r) = n" using r'(1) by (intro length_targets) simp
  have eq: "handleRequest srv req conn ec
          = authenticate_and_dispatch srv r' ?rq conn (map changeResource_call (targets ?t n ?r))"
    by (simp add: handleRequest_valid[OF assms(1,2)] loop)
  from authenticate_and_dispatch_calls[of srv r' ?rq conn "map changeResource_call (targets ?t n ?r)"]
  obtain post where post: "o_calls (handleRequest srv req conn ec)
             = map changeResource_call (targets ?t n ?r) @ post"
      "list_all (dispatched_with r' ?rq) post"
    unfolding eq by blast
  have obs: "getOriginalResource rq = getOriginalResource req"
    if "request_handler_call rq x \<in> set (o_calls (handleRequest srv req conn ec))" for rq x
  proof -
    from that post(1) have "request_handler_call rq x \<in> set post" by auto
    with post(2) have "rq = ?rq" by (auto simp: list_all_iff)
    then show ?thesis by (simp add: getOriginalResource_def)
  qed
  show ?thesis
    apply (rule exI[of _ r'])
    using r'(1) loop len eq post obs apply_redirects_original by blast
qed

theorem redirect_chain_resolves_witness:
  "ec_value success = 0 \<and> isValid (request_for ''/old/'')
   \<and> chain_of_length (m_redirects (default_server [(''/new'', returning_handler)] old_mid_new)) 2
       (stripTrailingSlash (getResource (request_for ''/old/'')))
   \<and> (2::nat) \<le> MAX_REDIRECTS
   \<and> o_calls (handleRequest (default_server [(''/new'', returning_handler)] old_mid_new)
        (request_for ''/old/'') open_connection success)
       = [changeResource_call ''/mid'', changeResource_call ''/new'',
          findRequestHandler_call ''/new'' True,
          request_handler_call
            \<lparr>m_resource = ''/new'', m_original_resource = ''/old/'', m_is_valid = True\<rparr> None]
   \<and> getOriginalResource
         \<lparr>m_resource = ''/new'', m_original_resource = ''/old/'', m_is_valid = True\<rparr>
       = getOriginalResource (request_for ''/old/'')
   \<and> getOriginalResource (request_for ''/old/'') = ''/old/''"
proof -
  let ?srv = "default_server [(''/new'', returning_handler)] old_mid_new"
  let ?rq = "\<lparr>m_resource = ''/new'', m_original_resource = ''/old/'', m_is_valid = True\<rparr>"
  have h: "ec_value success = 0" "isValid (request_for ''/old/'')"
    "chain_of_length (m_redirects ?srv) 2 (stripTrailingSlash (getResource (request_for ''/old/'')))"
    "(2::nat) \<le> MAX_REDIRECTS"
    by (simp_all add: success_def request_for_def isValid_def default_server_def getResource_def
        stripTrailingSlash_def chain_of_length_def old_mid_new_def MAX_REDIRECTS_def
        numeral_2_eq_2)
  have c: "o_calls (handleRequest ?srv (request_for ''/old/'') open_connection success)
       = [changeResource_call ''/mid'', changeResource_call ''/new'',
          findRequestHandler_call ''/new'' True, request_handler_call ?rq None]"
    by (simp add: run_old_new)
  then have m: "request_handler_call ?rq None
      \<in> set (o_calls (handleRequest ?srv (request_for ''/old/'') open_connection success))"
    by simp
  from redirect_chain_resolves[OF h, of open_connection] m
  have "getOriginalResource ?rq = getOriginalResource (request_for ''/old/'')" by blast
  moreover have "getOriginalResource (request_for ''/old/'') = ''/old/''"
    by (simp add: getOriginalResource_def request_for_def)
  ultimately show ?thesis using h c by blast
qed

text \<open>
  C9. For every redirect table, cycles and endless chains included, the redirection
  loop of handleRequest ends: the counter \<^verbatim>\<open>num_redirects\<close>, which grows with each
  iteration, ends at MAX_REDIRECTS + 1 at most; it counts the rewrites made, plus one
  when the loop leaves through the bound-exceeded branch; the loop leaves either there,
  with the counter at MAX_REDIRECTS + 1, or because the table has no entry for the
  current resource; and a call of handleRequest makes at most MAX_REDIRECTS rewrites.
\<close>

theorem redirect_loop_terminates:
  "r_num_redirects (apply_redirects t (t r) 0 r req []) \<le> MAX_REDIRECTS + 1
   \<and> r_num_redirects (apply_redirects t (t r) 0 r req [])
       = length (r_calls (apply_redirects t (t r) 0 r req []))
         + (if r_exceeded (apply_redirects t (t r) 0 r req []) then 1 else 0)
   \<and> (if r_exceeded (apply_redirects t (t r) 0 r req [])
       then r_num_redirects (apply_redirects t (t r) 0 r req []) = MAX_REDIRECTS + 1
       else t (r_resource_requested (apply_redirects t (t r) 0 r req [])) = None)
   \<and> (\<forall>s k r' c. k < r_num_redirects (apply_redirects t (Some s) k r' req c))
   \<and> length (filter is_changeResource_call (o_calls (handleRequest srv rq conn ec)))
       \<le> MAX_REDIRECTS"
proof -
  from apply_redirects_shape[of t "t r" 0 r req "[]"] obtain xs e where
    eq: "apply_redirects t (t r) 0 r req [] =
       \<lparr>r_exceeded = e, r_num_redirects = 0 + length xs + (if e then 1 else 0),
        r_resource_requested = last (r # xs),
        r_http_request = (if xs = [] then req else req\<lparr>m_resource := last xs\<rparr>),
        r_calls = [] @ map changeResource_call xs\<rparr>"
    and e: "e \<longrightarrow> MAX_REDIRECTS \<le> 0 + length xs"
    and b: "0 \<le> MAX_REDIRECTS \<longrightarrow> 0 + length xs \<le> MAX_REDIRECTS"
    and n: "t r = t r \<longrightarrow> \<not> e \<longrightarrow> t (last (r # xs)) = None"
    by blast
  have 1: "r_num_redirects (apply_redirects t (t r) 0 r req []) \<le> MAX_REDIRECTS + 1"
    using eq b by simp
  have 2: "r_num_redirects (apply_redirects t (t r) 0 r req [])
       = length (r_calls (apply_redirects t (t r) 0 r req []))
         + (if r_exceeded (apply_redirects t (t r) 0 r req []) then 1 else 0)"
    using eq by simp
  have 3: "if r_exceeded (apply_redirects t (t r) 0 r req [])
       then r_num_redirects (apply_redirects t (t r) 0 r req []) = MAX_REDIRECTS + 1
       else t (r_resource_requested (apply_redirects t (t r) 0 r req [])) = None"
    using eq e b n by (cases e) simp_all
  have 4: "k < r_num_redirects (apply_redirects t (Some s) k r' req c)" for s k r' c
  proof (cases "MAX_REDIRECTS < Suc k")
    case True
    then show ?thesis by (simp add: apply_redirects_Some)
  next
    case False
    from apply_redirects_shape[of t "t s" "Suc k" s "changeResource s req"
        "c @ [changeResource_call s]"]
    have "Suc k \<le> r_num_redirects (apply_redirects t (t s) (Suc k) s (changeResource s req)
        (c @ [changeResource_call s]))"
      by auto
    with False show ?thesis by (simp add: apply_redirects_Some)
  qed
  have nocr: "filter is_changeResource_call post = []"
    if "list_all (dispatched_with a b) post" for a b post
    using that by (induction post) (auto elim: dispatched_with.elims)
  have cr: "filter is_changeResource_call (map changeResource_call ys) = map changeResource_call ys"
    for ys by (induction ys) auto
  have 5: "length (filter is_changeResource_call (o_calls (handleRequest srv rq conn ec)))
       \<le> MAX_REDIRECTS"
  proof (cases rule: handleRequest_cases[of ec rq srv conn])
    case error
    have "filter is_changeResource_call cs = []"
      if "set cs \<subseteq> {set_lifecycle_call LIFECYCLE_CLOSE, bad_request_handler_call rq, finish_call}"
      for cs using that by (induction cs) auto
    from this[OF error(2)] show ?thesis by simp
  next
    case (exceeded ys rq')
    then show ?thesis by (simp add: returned_def cr)
  next
    case (dispatch ys)
    from authenticate_and_dispatch_calls[of srv "last (stripTrailingSlash (getResource rq) # ys)"
        "if ys = [] then rq else rq\<lparr>m_resource := last ys\<rparr>" conn "map changeResource_call ys"]
    obtain post where "o_calls (handleRequest srv rq conn ec) = map changeResource_call ys @ post"
      "list_all (dispatched_with (last (stripTrailingSlash (getResource rq) # ys))
         (if ys = [] then rq else rq\<lparr>m_resource := last ys\<rparr>)) post"
      unfolding dispatch(5) by blast
    then show ?thesis using dispatch(3) nocr cr by simp
  qed
  from 1 2 3 4 5 show ?thesis by blast
qed

theorem redirect_loop_terminates_witness:
  "r_exceeded (apply_redirects self_loop (self_loop ''/a'') 0 ''/a'' (request_for ''/a'') [])
   \<and> r_num_redirects (apply_redirects self_loop (self_loop ''/a'') 0 ''/a'' (request_for ''/a'') [])
       = 11
   \<and> length (r_calls (apply_redirects self_loop (self_loop ''/a'') 0 ''/a'' (request_for ''/a'') []))
       = 10
   \<and> length (filter is_changeResource_call (o_calls (handleRequest (default_server [] self_loop)
        (request_for ''/a'') open_connection success))) \<le> 10"
proof -
  have e: "r_exceeded (apply_redirects self_loop (self_loop ''/a'') 0 ''/a'' (request_for ''/a'') [])"
    by (simp add: self_loop_def apply_redirects_Some MAX_REDIRECTS_def)
  note t = redirect_loop_terminates[of self_loop "''/a''" "request_for ''/a''" "default_server [] self_loop"
      "request_for ''/a''" open_connection success]
  from t e have n: "r_num_redirects (apply_redirects self_loop (self_loop ''/a'') 0 ''/a''
      (request_for ''/a'') []) = 11"
    by (simp add: MAX_REDIRECTS_def)
  from t e n have l: "length (r_calls (apply_redirects self_loop (self_loop ''/a'') 0 ''/a''
      (request_for ''/a'') [])) = 10"
    by simp
  from t have "length (filter is_changeResource_call (o_calls (handleRequest
      (default_server [] self_loop) (request_for ''/a'') open_connection success))) \<le> 10"
    by (simp add: MAX_REDIRECTS_def)
  with e n l show ?thesis by blast
qed

text \<open>
  C10. When no handler matches (a valid request read without error, whose redirect chain
  of \<open>n\<close> steps, at most MAX_REDIRECTS, ends at \<open>r'\<close>, passes the authentication gate, and
  the registry has no handler for \<open>r'\<close>), handleRequest calls the not-found responder, and
  the default responder writes a 404 response whose body embeds the current resource of
  the message, as getResource gives it: the target of the last redirect when there was
  one, and otherwise the resource exactly as the client sent it, trailing slash included
  (not the stripped copy used for the look-up, and not the original resource).
\<close>

theorem not_found_embeds_resource:
  assumes "ec_value ec = 0" and "isValid req"
    and "follow (m_redirects srv) n (stripTrailingSlash (getResource req)) = Some r'"
    and "m_redirects srv r' = None" and "n \<le> MAX_REDIRECTS"
    and "auth_gate srv (if n = 0 then req else req\<lparr>m_resource := r'\<rparr>) conn = (True, conn_a)"
    and "findRequestHandler (m_resources srv) r' = None"
    and "m_not_found_handler srv = handleNotFoundRequest"
  shows "handleRequest srv req conn ec =
           \<lparr>o_thrown = None,
            o_request = (if n = 0 then req else req\<lparr>m_resource := r'\<rparr>),
            o_conn = finish (conn_a\<lparr>m_written := m_written conn_a @
              [\<lparr>m_status_code = 404, m_status_message = ''Not Found'',
                m_content = NOT_FOUND_HTML_START
                  @ (if n = 0 then getResource req else r')
                  @ NOT_FOUND_HTML_FINISH\<rparr>]\<rparr>),
            o_calls = map changeResource_call
                        (targets (m_redirects srv) n (stripTrailingSlash (getResource req)))
                      @ auth_calls srv (if n = 0 then req else req\<lparr>m_resource := r'\<rparr>)
                      @ [findRequestHandler_call r' False,
                         not_found_handler_call (if n = 0 then req else req\<lparr>m_resource := r'\<rparr>)]\<rparr>
         \<and> getResource (if n = 0 then req else req\<lparr>m_resource := r'\<rparr>)
             = (if n = 0 then getResource req else r')"
proof -
  have g: "getResource (if n = 0 then req else req\<lparr>m_resource := r'\<rparr>)
             = (if n = 0 then getResource req else r')"
    by (simp add: getResource_def)
  show ?thesis
    unfolding handleRequest_reaches_lookup[OF assms(1-6)]
    using assms(7,8) g
    by (simp add: find_and_invoke_def returned_def handleNotFoundRequest_eq)
qed

theorem not_found_embeds_resource_witness:
  "ec_value success = 0 \<and> isValid (request_for ''/b/'') \<and> isValid (request_for ''/old/'')
   \<and> findRequestHandler [(''/a'', returning_handler)] ''/b'' = None
   \<and> findRequestHandler [(''/a'', returning_handler)] ''/new'' = None
   \<and> follow old_mid_new 2 ''/old'' = Some ''/new'' \<and> old_mid_new ''/new'' = None
   \<and> m_written (o_conn (handleRequest
        ((default_server [(''/a'', returning_handler)] Map.empty)\<lparr>m_auth_ptr := Some passing_auth\<rparr>)
        (request_for ''/b/'') open_connection success))
       = [\<lparr>m_status_code = 404, m_status_message = ''Not Found'',
           m_content = NOT_FOUND_HTML_START @ ''/b/'' @ NOT_FOUND_HTML_FINISH\<rparr>]
   \<and> o_calls (handleRequest
        ((default_server [(''/a'', returning_handler)] Map.empty)\<lparr>m_auth_ptr := Some passing_auth\<rparr>)
        (request_for ''/b/'') open_connection success)
       = [auth_call (request_for ''/b/'') True, findRequestHandler_call ''/b'' False,
          not_found_handler_call (request_for ''/b/'')]
   \<and> m_written (o_conn (handleRequest (default_server [(''/a'', returning_handler)] old_mid_new)
        (request_for ''/old/'') open_connection success))
       = [\<lparr>m_status_code = 404, m_status_message = ''Not Found'',
           m_content = NOT_FOUND_HTML_START @ ''/new'' @ NOT_FOUND_HTML_FINISH\<rparr>]
   \<and> o_calls (handleRequest (default_server [(''/a'', returning_handler)] old_mid_new)
        (request_for ''/old/'') open_connection success)
       = [changeResource_call ''/mid'', changeResource_call ''/new'',
          findRequestHandler_call ''/new'' False,
          not_found_handler_call ((request_for ''/old/'')\<lparr>m_resource := ''/new''\<rparr>)]"
proof -
  let ?A = "(default_server [(''/a'', returning_handler)] Map.empty)\<lparr>m_auth_ptr := Some passing_auth\<rparr>"
  let ?B = "default_server [(''/a'', returning_handler)] old_mid_new"
  have h: "ec_value success = 0" "isValid (request_for ''/b/'')" "isValid (request_for ''/old/'')"
    by (simp_all add: success_def request_for_def isValid_def)
  have s: "stripTrailingSlash (getResource (request_for ''/b/'')) = ''/b''"
    "stripTrailingSlash (getResource (request_for ''/old/'')) = ''/old''"
    "getResource (request_for ''/b/'') = ''/b/''"
    by (simp_all add: request_for_def getResource_def stripTrailingSlash_def)
  have ch: "follow old_mid_new 2 ''/old'' = Some ''/new''" "old_mid_new ''/new'' = None"
    "targets old_mid_new 2 ''/old'' = [''/mid'', ''/new'']"
    by (simp_all add: old_mid_new_def numeral_2_eq_2)
  have a: "handleRequest ?A (request_for ''/b/'') open_connection success =
           \<lparr>o_thrown = None, o_request = request_for ''/b/'',
            o_conn = finish (open_connection\<lparr>m_written := m_written open_connection @
              [\<lparr>m_status_code = 404, m_status_message = ''Not Found'',
                m_content = NOT_FOUND_HTML_START @ ''/b/'' @ NOT_FOUND_HTML_FINISH\<rparr>]\<rparr>),
            o_calls = [auth_call (request_for ''/b/'') True, findRequestHandler_call ''/b'' False,
                       not_found_handler_call (request_for ''/b/'')]\<rparr>"
    using not_found_embeds_resource[where srv="?A" and req="request_for ''/b/''" and ec=success and n=0
        and r'="''/b''" and conn=open_connection and conn_a=open_connection, THEN conjunct1]
      h s miss_a
    by (simp add: default_server_def auth_gate_def auth_calls_def passing_auth_def)
  have b: "handleRequest ?B (request_for ''/old/'') open_connection success =
           \<lparr>o_thrown = None, o_request = (request_for ''/old/'')\<lparr>m_resource := ''/new''\<rparr>,
            o_conn = finish (open_connection\<lparr>m_written := m_written open_connection @
              [\<lparr>m_status_code = 404, m_status_message = ''Not Found'',
                m_content = NOT_FOUND_HTML_START @ ''/new'' @ NOT_FOUND_HTML_FINISH\<rparr>]\<rparr>),
            o_calls = [changeResource_call ''/mid'', changeResource_call ''/new'',
                       findRequestHandler_call ''/new'' False,
                       not_found_handler_call ((request_for ''/old/'')\<lparr>m_resource := ''/new''\<rparr>)]\<rparr>"
    using not_found_embeds_resource[where srv="?B" and req="request_for ''/old/''" and ec=success and n=2
        and r'="''/new''" and conn=open_connection and conn_a=open_connection, THEN conjunct1]
      h s miss_a ch
    by (simp add: default_server_def auth_gate_def auth_calls_def MAX_REDIRECTS_def)
  show ?thesis using h miss_a ch(1,2) a b
    by (simp add: written_finish open_connection_def)
qed

end
